theory Spec2Isabelle
  imports Main "HOL-Library.AList"
begin

section \<open>Python values, exceptions and containers\<close>

text \<open>
  The exceptions that \<^verbatim>\<open>climcaps_subaggregation.py\<close> can raise.  An exception aborts the
  function, so every function of the model returns \<open>error + 'a\<close> with \<open>Inl\<close> for the
  exception.  \<open>ValueError\<close>, \<open>OSError\<close>, \<open>KeyError\<close> and \<open>UnboundLocalError\<close> carry the message
  or key.  \<open>External\<close> stands for an exception raised inside a collaborator (numpy,
  netCDF4, earthaccess, the file system), whose class and wording this module does not
  determine.  \<open>Dangling\<close>
  is not a Python exception: it is the model's answer to a reference that designates no
  object of the store, which Python rules out.
\<close>

datatype error =
    IndexError
  | KeyError string
  | ValueError string
  | OSError string
  | TypeError
  | UnboundLocalError string
  | External string
  | Dangling

definition and_then :: "error + 'a \<Rightarrow> ('a \<Rightarrow> error + 'b) \<Rightarrow> error + 'b" where
  "and_then m f = (case m of Inl e \<Rightarrow> Inl e | Inr x \<Rightarrow> f x)"

text \<open>
  \<^verbatim>\<open>xs[i]\<close> and \<^verbatim>\<open>xs.pop(i)\<close> on a Python list: a negative index counts from the end, an
  index outside the list raises IndexError.  \<open>py_pop\<close> returns the list that is left.
\<close>

definition py_index :: "'a list \<Rightarrow> int \<Rightarrow> error + 'a" where
  "py_index xs i =
     (let n = int (length xs); j = (if i < 0 then i + n else i)
      in if 0 \<le> j \<and> j < n then Inr (xs ! nat j) else Inl IndexError)"

definition py_pop :: "'a list \<Rightarrow> int \<Rightarrow> error + 'a list" where
  "py_pop xs i =
     (let n = int (length xs); j = (if i < 0 then i + n else i)
      in if 0 \<le> j \<and> j < n then Inr (take (nat j) xs @ drop (Suc (nat j)) xs)
         else Inl IndexError)"

text \<open>
  \<^verbatim>\<open>s.split(c)\<close> for a one-character separator: every occurrence of the separator ends a
  segment, so the result is never empty and has one more segment than separators.
\<close>

fun py_split :: "char \<Rightarrow> string \<Rightarrow> string list" where
  "py_split c [] = [[]]"
| "py_split c (x # xs) =
     (if x = c then [] # py_split c xs
      else (case py_split c xs of [] \<Rightarrow> [[x]] | w # ws \<Rightarrow> (x # w) # ws))"

section \<open>Catalog resolver: \<^verbatim>\<open>get_granule_list\<close>\<close>

text \<open>
  A granule handle of the catalog; \<^verbatim>\<open>data_links()\<close> is the only part of it the module reads.
\<close>

record granule =
  data_links :: "string list"

text \<open>
  One pass of \<^verbatim>\<open>for idx in (0, -1)\<close> (lines 54 to 57): the same \<open>idx\<close> selects the granule
  in the list and the link in the granule's \<^verbatim>\<open>data_links()\<close>.
\<close>

definition trim_at :: "string \<Rightarrow> int \<Rightarrow> granule list \<Rightarrow> error + granule list" where
  "trim_at expected_ymd idx granule_list =
     and_then (py_index granule_list idx) (\<lambda>g.
     and_then (py_index (data_links g) idx) (\<lambda>url.
     and_then (py_index (py_split CHR ''/'' url) (- 1)) (\<lambda>filename.
     and_then (py_index (py_split CHR ''.'' filename) 3) (\<lambda>seg.
       let ymd = take 8 seg
       in if ymd \<noteq> expected_ymd then py_pop granule_list idx else Inr granule_list))))"

text \<open>
  \<^verbatim>\<open>get_granule_list\<close> from line 51 on.  The calendar arithmetic and the catalog query
  belong to the collaborators \<^verbatim>\<open>datetime\<close> and \<^verbatim>\<open>earthaccess\<close>; the model takes their
  results as arguments: \<open>expected_ymd\<close> is \<^verbatim>\<open>window_start.strftime('%Y%m%d')\<close> and
  \<open>granule_list\<close> is what \<^verbatim>\<open>earthaccess.search_data\<close> returned.
\<close>

definition get_granule_list :: "string \<Rightarrow> granule list \<Rightarrow> error + granule list" where
  "get_granule_list expected_ymd granule_list =
     (if length granule_list > 0
      then and_then (trim_at expected_ymd 0 granule_list) (trim_at expected_ymd (- 1))
      else Inr granule_list)"

text \<open>
  The date token of one link, as lines 54 and 55 extract it: the basename after the last
  slash, its fourth dot-delimited segment, the first eight characters of that.
\<close>

definition link_ymd :: "string \<Rightarrow> error + string" where
  "link_ymd url =
     and_then (py_index (py_split CHR ''/'' url) (- 1)) (\<lambda>filename.
     and_then (py_index (py_split CHR ''.'' filename) 3) (\<lambda>seg. Inr (take 8 seg)))"

text \<open>
  The token the specification speaks of: the one of a granule's primary, that is first,
  data link.
\<close>

definition primary_ymd :: "granule \<Rightarrow> error + string" where
  "primary_ymd g = and_then (py_index (data_links g) 0) link_ymd"

text \<open>The token the second pass reads: the one of a granule's last data link.\<close>

definition final_ymd :: "granule \<Rightarrow> error + string" where
  "final_ymd g = and_then (py_index (data_links g) (- 1)) link_ymd"

section \<open>Transfer retry wrapper: \<^verbatim>\<open>_earthaccess_download\<close>\<close>

text \<open>
  An entry of the list \<^verbatim>\<open>earthaccess.download\<close> returns: the name of a downloaded file (a
  \<^verbatim>\<open>str\<close>), or an exception object standing in for a file that failed.
\<close>

datatype dl_entry = Path string | Failure

fun is_str_entry :: "dl_entry \<Rightarrow> bool" where
  "is_str_entry (Path f) = True"
| "is_str_entry Failure = False"

text \<open>\<^verbatim>\<open>list(map(type, files)).count(str)\<close>\<close>

definition count_str :: "dl_entry list \<Rightarrow> nat" where
  "count_str files = length (filter is_str_entry files)"

text \<open>
  The local variables of the retry loop (lines 232 to 239); \<open>files\<close> is \<open>None\<close> while the
  Python name is unbound.  \<open>calls\<close> is not a variable of the source: it counts the
  invocations of \<^verbatim>\<open>earthaccess.download\<close>, and the collaborator's answer may depend on it.
\<close>

record dl_state =
  num_tries :: nat
  num_downloaded_files :: nat
  files :: "dl_entry list option"
  calls :: nat

text \<open>
  The \<^verbatim>\<open>while\<close> loop.  The body assigns \<open>files\<close> and \<open>num_downloaded_files\<close> and nothing
  else: \<open>num_tries\<close> keeps its value.  The loop may run forever, so the model takes fuel:
  one unit per pass through the body, \<open>None\<close> when the fuel does not suffice.
\<close>

fun download_loop ::
  "nat \<Rightarrow> (nat \<Rightarrow> dl_entry list) \<Rightarrow> nat \<Rightarrow> nat \<Rightarrow> dl_state \<Rightarrow> dl_state option" where
  "download_loop fuel download max_num_tries num_expected_files st =
     (if num_tries st < max_num_tries \<and> num_downloaded_files st < num_expected_files
      then (case fuel of
              0 \<Rightarrow> None
            | Suc fuel' \<Rightarrow>
                download_loop fuel' download max_num_tries num_expected_files
                  (st\<lparr>files := Some (download (calls st)),
                      num_downloaded_files := count_str (download (calls st)),
                      calls := Suc (calls st)\<rparr>))
      else Some st)"

text \<open>\<^verbatim>\<open>os.path.join(a, b)\<close> on a POSIX system, for two components.\<close>

definition os_path_join :: "string \<Rightarrow> string \<Rightarrow> string" where
  "os_path_join a b =
     (if b \<noteq> [] \<and> hd b = CHR ''/'' then b
      else if a = [] \<or> last a = CHR ''/'' then a @ b
      else a @ ''/'' @ b)"

text \<open>\<^verbatim>\<open>os.path.join(tmp_dir, f)\<close> raises TypeError when \<open>f\<close> is an exception object.\<close>

fun join_entry :: "string \<Rightarrow> dl_entry \<Rightarrow> error + string" where
  "join_entry tmp_dir (Path f) = Inr (os_path_join tmp_dir f)"
| "join_entry tmp_dir Failure = Inl TypeError"

text \<open>A list comprehension whose element expression may raise.\<close>

fun map_raising :: "('a \<Rightarrow> error + 'b) \<Rightarrow> 'a list \<Rightarrow> error + 'b list" where
  "map_raising f [] = Inr []"
| "map_raising f (x # xs) =
     and_then (f x) (\<lambda>y. and_then (map_raising f xs) (\<lambda>ys. Inr (y # ys)))"

text \<open>
  \<^verbatim>\<open>_earthaccess_download\<close> (an Isabelle name cannot start with an underscore).
  \<open>download k granule_list tmp_dir\<close> is what the \<open>k\<close>-th invocation (counted from 0) of
  \<^verbatim>\<open>earthaccess.download(granule_list, tmp_dir)\<close> returns.  \<^verbatim>\<open>os.mkdir\<close> leaves the
  directory in place whether or not it existed; other failures of the file system are
  outside the model.  The result is \<open>None\<close> when the fuel runs out, and otherwise the
  returned paths (or the exception) together with the number of download invocations.
\<close>

definition earthaccess_download ::
  "nat \<Rightarrow> (nat \<Rightarrow> granule list \<Rightarrow> string \<Rightarrow> dl_entry list) \<Rightarrow> granule list \<Rightarrow> string
     \<Rightarrow> ((error + string list) \<times> nat) option" where
  "earthaccess_download fuel download granule_list tmp_dir =
     (let max_num_tries = 3;
          num_expected_files = length granule_list
      in case download_loop fuel (\<lambda>k. download k granule_list tmp_dir)
                max_num_tries num_expected_files
                \<lparr>num_tries = 0, num_downloaded_files = 0, files = None, calls = 0\<rparr> of
           None \<Rightarrow> None
         | Some st \<Rightarrow>
             Some (case files st of
                     None \<Rightarrow> Inl (UnboundLocalError ''files'')
                   | Some fs \<Rightarrow> map_raising (join_entry tmp_dir) fs,
                   calls st))"

section \<open>Arrays and the object store\<close>

text \<open>
  A Python value held in an array or in an attribute: \<open>PyStr\<close> is a value whose type is
  exactly \<^verbatim>\<open>str\<close>; \<open>PyOther\<close> stands for a value of any other type (a float, a numpy
  scalar, bytes), named by its \<^verbatim>\<open>repr\<close>.
\<close>

datatype pyval = PyNone | PyStr string | PyInt int | PyOther string

fun is_str :: "pyval \<Rightarrow> bool" where
  "is_str (PyStr s) = True"
| "is_str v = False"

text \<open>
  A numpy element type: \<^verbatim>\<open>object\<close>, or a native type named as numpy prints it.  An array
  is its element type, its shape and the elements of its data buffer in row-major order.
  \<open>mask\<close> tells a plain \<^verbatim>\<open>ndarray\<close> (\<open>None\<close>) from a \<^verbatim>\<open>numpy.ma.MaskedArray\<close>, as the
  netCDF4 reader returns for variables of primitive type (\<open>Some m\<close>, where \<open>m\<close> says of
  each element, in the same order, whether it is masked).
\<close>

datatype dtype = DObject | DNative string

record ndarray =
  dtype :: dtype
  shape :: "nat list"
  flat :: "pyval list"
  mask :: "bool list option"

text \<open>
  \<^verbatim>\<open>np.concatenate([a, b], axis=0)\<close>.  The first array needs at least one axis, the second
  the same number of axes, and the extents must agree on every axis but the first;
  otherwise numpy raises a ValueError whose wording depends on its version, which the
  model records as an exception of the collaborator.  The data of the result are those of
  \<open>a\<close> followed by those of \<open>b\<close>.  The masks of the inputs are not carried over: the result
  is a plain \<^verbatim>\<open>ndarray\<close> when both inputs are, and a \<^verbatim>\<open>MaskedArray\<close> with no element masked
  otherwise.  The element type of the result follows numpy's promotion table, which the
  model takes as the parameter \<open>promote_types\<close>.
\<close>

definition np_concatenate ::
  "(dtype \<Rightarrow> dtype \<Rightarrow> dtype) \<Rightarrow> ndarray \<Rightarrow> ndarray \<Rightarrow> error + ndarray" where
  "np_concatenate promote_types a b =
     (case shape a of
        [] \<Rightarrow> Inl (External ''numpy.concatenate: zero-dimensional array'')
      | m # ra \<Rightarrow>
          (case shape b of
             [] \<Rightarrow> Inl (External ''numpy.concatenate: numbers of dimensions differ'')
           | n # rb \<Rightarrow>
               if length ra \<noteq> length rb
               then Inl (External ''numpy.concatenate: numbers of dimensions differ'')
               else if ra \<noteq> rb
               then Inl (External ''numpy.concatenate: dimensions differ off the axis'')
               else Inr \<lparr>dtype = promote_types (dtype a) (dtype b),
                         shape = (m + n) # ra,
                         flat = flat a @ flat b,
                         mask = (if mask a = None \<and> mask b = None then None
                                 else Some (replicate (length (flat a @ flat b)) False))\<rparr>))"

text \<open>
  A Python \<^verbatim>\<open>dict\<close> with string keys is an association list in insertion order:
  \<^verbatim>\<open>d[k]\<close> is \<open>dict_get\<close>, \<^verbatim>\<open>d[k] = v\<close> is \<open>AList.update\<close> (an existing key keeps its
  place, a new key goes to the end), \<^verbatim>\<open>for k in d\<close> walks the list.
\<close>

definition dict_get :: "(string \<times> 'v) list \<Rightarrow> string \<Rightarrow> error + 'v" where
  "dict_get d k = (case map_of d k of None \<Rightarrow> Inl (KeyError k) | Some v \<Rightarrow> Inr v)"

text \<open>
  Arrays and lists are mutable objects that dictionaries share by reference.  The store
  holds them by kind; a reference is a position in the store, and a new object goes to
  the end, so that no reference held before designates it.

  The rest of the world the module acts on: \<open>trace\<close> logs the calls to the collaborators
  and the printed messages in order (a message is logged by its kind and arguments), \<open>written\<close> maps each output path to the calls made on its netCDF4 dataset, and
  \<open>readable\<close> is the set of paths for which \<^verbatim>\<open>os.access(path, os.R_OK)\<close> holds.
\<close>

type_synonym ref = nat

datatype nc_type = NcStr | NcDtype dtype

datatype nc_call =
    CreateDimension string nat
  | CreateVariable string nc_type "string list" string nat "pyval option"
  | AssignData string ndarray
  | SetNcAttr string string pyval

datatype message = NoGranules int int | Skipping int int | Computing int int | Elapsed

datatype event =
    EvSearch string int int
  | EvMkdir string
  | EvDownload string
  | EvOpen
  | EvRead string
  | EvClose string
  | EvDatasetMemory
  | EvDatasetRead string
  | EvDatasetWrite string
  | EvRemove string
  | EvPrint message

record world =
  arrays :: "ndarray list"
  name_lists :: "string list list"
  size_lists :: "nat list list"
  trace :: "event list"
  written :: "(string \<times> nc_call list) list"
  readable :: "string set"

text \<open>
  A computation that may raise and may change the world; the world it leaves is returned
  in both cases.
\<close>

type_synonym 'a prog = "world \<Rightarrow> (error + 'a) \<times> world"

definition py_return :: "'a \<Rightarrow> 'a prog" where
  "py_return x w = (Inr x, w)"

definition py_raise :: "error \<Rightarrow> 'a prog" where
  "py_raise e w = (Inl e, w)"

definition lift :: "error + 'a \<Rightarrow> 'a prog" where
  "lift r w = (r, w)"

definition then_do :: "'a prog \<Rightarrow> ('a \<Rightarrow> 'b prog) \<Rightarrow> 'b prog" where
  "then_do m f w = (case m w of (Inl e, w') \<Rightarrow> (Inl e, w') | (Inr x, w') \<Rightarrow> f x w')"

definition log_event :: "event \<Rightarrow> unit prog" where
  "log_event ev w = (Inr (), w\<lparr>trace := trace w @ [ev]\<rparr>)"

definition read_array :: "ref \<Rightarrow> ndarray prog" where
  "read_array a w =
     (if a < length (arrays w) then (Inr (arrays w ! a), w) else (Inl Dangling, w))"

definition new_array :: "ndarray \<Rightarrow> ref prog" where
  "new_array x w = (Inr (length (arrays w)), w\<lparr>arrays := arrays w @ [x]\<rparr>)"

definition read_names :: "ref \<Rightarrow> string list prog" where
  "read_names r w =
     (if r < length (name_lists w) then (Inr (name_lists w ! r), w) else (Inl Dangling, w))"

definition new_names :: "string list \<Rightarrow> ref prog" where
  "new_names ns w = (Inr (length (name_lists w)), w\<lparr>name_lists := name_lists w @ [ns]\<rparr>)"

definition write_names :: "ref \<Rightarrow> string list \<Rightarrow> unit prog" where
  "write_names r ns w =
     (if r < length (name_lists w)
      then (Inr (), w\<lparr>name_lists := (name_lists w)[r := ns]\<rparr>)
      else (Inl Dangling, w))"

definition read_sizes :: "ref \<Rightarrow> nat list prog" where
  "read_sizes r w =
     (if r < length (size_lists w) then (Inr (size_lists w ! r), w) else (Inl Dangling, w))"

definition new_sizes :: "nat list \<Rightarrow> ref prog" where
  "new_sizes ks w = (Inr (length (size_lists w)), w\<lparr>size_lists := size_lists w @ [ks]\<rparr>)"

definition write_sizes :: "ref \<Rightarrow> nat list \<Rightarrow> unit prog" where
  "write_sizes r ks w =
     (if r < length (size_lists w)
      then (Inr (), w\<lparr>size_lists := (size_lists w)[r := ks]\<rparr>)
      else (Inl Dangling, w))"

text \<open>
  The value of \<^verbatim>\<open>dims[v]\<close>: a dictionary with the two keys \<^verbatim>\<open>'names'\<close> and \<^verbatim>\<open>'sizes'\<close>,
  each bound to a list object.
\<close>

record dim_entry =
  names :: ref
  sizes :: ref

section \<open>Granule loader\<close>

text \<open>
  What the netCDF4 reader exposes of one dataset: the dimensions declared at the root,
  the dimensions declared in each named group, and the variables by their path
  (\<^verbatim>\<open>'lat'\<close>, \<^verbatim>\<open>'mw/mw_surf_temp'\<close>), each with its array, its dimension names in declared order
  and its attributes.
\<close>

record nc_variable =
  var_data :: ndarray
  var_dimensions :: "string list"
  var_ncattrs :: "(string \<times> pyval) list"

record nc_dataset =
  root_dimensions :: "(string \<times> nat) list"
  group_dimensions :: "(string \<times> (string \<times> nat) list) list"
  variables :: "(string \<times> nc_variable) list"

text \<open>\<^verbatim>\<open>nc[v]\<close> for a variable path; netCDF4 raises IndexError when nothing has that path.\<close>

definition nc_getitem :: "nc_dataset \<Rightarrow> string \<Rightarrow> error + nc_variable" where
  "nc_getitem nc v = (case map_of (variables nc) v of None \<Rightarrow> Inl IndexError | Some x \<Rightarrow> Inr x)"

text \<open>
  Lines 79 to 83: the size of a dimension is looked up at the root; on KeyError the
  lookup falls back to the dimensions of \<^verbatim>\<open>nc[grp]\<close>, where \<open>grp\<close> is the part of the
  variable's path before the first slash.  When \<open>grp\<close> is a variable rather than a group,
  its \<^verbatim>\<open>dimensions\<close> is a tuple of names and indexing it with a name raises TypeError.
\<close>

definition dimension_size :: "nc_dataset \<Rightarrow> string \<Rightarrow> string \<Rightarrow> error + nat" where
  "dimension_size nc v dim =
     (case map_of (root_dimensions nc) dim of
        Some k \<Rightarrow> Inr k
      | None \<Rightarrow>
          and_then (py_index (py_split CHR ''/'' v) 0) (\<lambda>grp.
            case map_of (group_dimensions nc) grp of
              Some gd \<Rightarrow> dict_get gd dim
            | None \<Rightarrow>
                (case map_of (variables nc) grp of
                   Some x \<Rightarrow> Inl TypeError
                 | None \<Rightarrow> Inl IndexError)))"

text \<open>
  The three dictionaries a load returns, keyed by variable name: the arrays, the
  dimension descriptors and the attribute maps.
\<close>

type_synonym dat_dict = "(string \<times> ref) list"
type_synonym dims_dict = "(string \<times> dim_entry) list"
type_synonym attrs_dict = "(string \<times> (string \<times> pyval) list) list"

text \<open>The loop over \<^verbatim>\<open>nc[v].dimensions\<close> (lines 77 to 83): both lists grow in place.\<close>

fun load_dimensions :: "nc_dataset \<Rightarrow> string \<Rightarrow> ref \<Rightarrow> ref \<Rightarrow> string list \<Rightarrow> unit prog" where
  "load_dimensions nc v n z [] = py_return ()"
| "load_dimensions nc v n z (dim # rest) =
     then_do (read_names n) (\<lambda>ns.
     then_do (write_names n (ns @ [dim])) (\<lambda>u.
     then_do (lift (dimension_size nc v dim)) (\<lambda>k.
     then_do (read_sizes z) (\<lambda>ks.
     then_do (write_sizes z (ks @ [k])) (\<lambda>u.
       load_dimensions nc v n z rest)))))"

text \<open>The loop over \<^verbatim>\<open>var_list\<close> (lines 69 to 85).\<close>

fun load_variables ::
  "nc_dataset \<Rightarrow> string list \<Rightarrow> dat_dict \<Rightarrow> dims_dict \<Rightarrow> attrs_dict
     \<Rightarrow> (dat_dict \<times> dims_dict \<times> attrs_dict) prog" where
  "load_variables nc [] dat dims attrs = py_return (dat, dims, attrs)"
| "load_variables nc (v # rest) dat dims attrs =
     then_do (lift (nc_getitem nc v)) (\<lambda>var.
     then_do (new_array (var_data var)) (\<lambda>a.
     then_do (new_names []) (\<lambda>n.
     then_do (new_sizes []) (\<lambda>z.
     then_do (load_dimensions nc v n z (var_dimensions var)) (\<lambda>u.
       load_variables nc rest
         (AList.update v a dat)
         (AList.update v \<lparr>names = n, sizes = z\<rparr> dims)
         (AList.update v (var_ncattrs var) attrs))))))"

definition load_from_netCDF4 ::
  "nc_dataset \<Rightarrow> string list \<Rightarrow> (dat_dict \<times> dims_dict \<times> attrs_dict) prog" where
  "load_from_netCDF4 nc var_list = load_variables nc var_list [] [] []"

text \<open>
  \<^verbatim>\<open>load_granule_from_file\<close>; \<open>dataset_of_file fname\<close> is what
  \<^verbatim>\<open>netCDF4.Dataset(fname, 'r')\<close> gives: the dataset, or the exception it raises.
\<close>

definition load_granule_from_file ::
  "(string \<Rightarrow> error + nc_dataset) \<Rightarrow> string \<Rightarrow> string list
     \<Rightarrow> (dat_dict \<times> dims_dict \<times> attrs_dict) prog" where
  "load_granule_from_file dataset_of_file fname var_list =
     then_do (log_event (EvDatasetRead fname)) (\<lambda>u.
     then_do (lift (dataset_of_file fname)) (\<lambda>nc.
       load_from_netCDF4 nc var_list))"

text \<open>
  A remote file object as \<^verbatim>\<open>earthaccess.open\<close> returns it: \<open>read_result\<close> is what its
  \<^verbatim>\<open>read()\<close> gives, the payload or the exception the transport raises.
\<close>

type_synonym bytes = string

record s3_obj =
  s3_name :: string
  read_result :: "error + bytes"

definition s3_read_failed :: string where
  "s3_read_failed = ''s3 read failed to return any data''"

text \<open>
  \<^verbatim>\<open>load_granule_from_s3\<close>; \<open>dataset_of_bytes b\<close> is what
  \<^verbatim>\<open>netCDF4.Dataset('inmemory.nc', memory=b, mode='r')\<close> gives.
\<close>

definition load_granule_from_s3 ::
  "(bytes \<Rightarrow> error + nc_dataset) \<Rightarrow> s3_obj \<Rightarrow> string list
     \<Rightarrow> (dat_dict \<times> dims_dict \<times> attrs_dict) prog" where
  "load_granule_from_s3 dataset_of_bytes s3 var_list =
     then_do (log_event (EvRead (s3_name s3))) (\<lambda>u.
     then_do (lift (read_result s3)) (\<lambda>nc_bytes.
       if length nc_bytes = 0
       then py_raise (OSError s3_read_failed)
       else
         then_do (log_event EvDatasetMemory) (\<lambda>u.
         then_do (lift (dataset_of_bytes nc_bytes)) (\<lambda>nc.
           load_from_netCDF4 nc var_list))))"

text \<open>A world with an empty store, no output and an empty log, for the examples.\<close>

definition empty_world :: world where
  "empty_world = \<lparr>arrays = [], name_lists = [], size_lists = [], trace = [],
                   written = [], readable = {}\<rparr>"

section \<open>Aggregator: \<^verbatim>\<open>concat_granules\<close>\<close>

text \<open>
  Lines 142 to 144: every array of the first record is copied (\<^verbatim>\<open>.copy()\<close> makes a new
  array object) and the copy is bound in the new dictionary \<open>cdat\<close>.
\<close>

fun seed_cdat :: "dat_dict \<Rightarrow> dat_dict \<Rightarrow> dat_dict prog" where
  "seed_cdat [] cdat = py_return cdat"
| "seed_cdat ((v, a) # rest) cdat =
     then_do (read_array a) (\<lambda>x.
     then_do (new_array x) (\<lambda>c.
       seed_cdat rest (AList.update v c cdat)))"

text \<open>
  Lines 147 to 152, the loop over the variables of one later record: a variable without
  dimensions is skipped; a variable with the dimension \<^verbatim>\<open>'atrack'\<close> is concatenated onto the
  aggregate (\<^verbatim>\<open>np.concatenate\<close> makes a new array object, which replaces the binding in
  \<open>cdat\<close>); any other variable is left alone.
\<close>

fun concat_variables ::
  "(dtype \<Rightarrow> dtype \<Rightarrow> dtype) \<Rightarrow> dims_dict \<Rightarrow> dat_dict \<Rightarrow> dat_dict \<Rightarrow> dat_dict prog" where
  "concat_variables promote_types dims [] cdat = py_return cdat"
| "concat_variables promote_types dims ((v, a) # rest) cdat =
     then_do (lift (dict_get dims v)) (\<lambda>d.
     then_do (read_names (names d)) (\<lambda>ns.
       if ns = [] then concat_variables promote_types dims rest cdat
       else if ''atrack'' \<in> set ns then
         then_do (lift (dict_get cdat v)) (\<lambda>c.
         then_do (read_array c) (\<lambda>x.
         then_do (read_array a) (\<lambda>y.
         then_do (lift (np_concatenate promote_types x y)) (\<lambda>xy.
         then_do (new_array xy) (\<lambda>c'.
           concat_variables promote_types dims rest (AList.update v c' cdat))))))
       else concat_variables promote_types dims rest cdat))"

text \<open>Line 146, the loop over \<^verbatim>\<open>dat_list[1:]\<close>.\<close>

fun concat_records ::
  "(dtype \<Rightarrow> dtype \<Rightarrow> dtype) \<Rightarrow> dims_dict \<Rightarrow> dat_dict list \<Rightarrow> dat_dict \<Rightarrow> dat_dict prog" where
  "concat_records promote_types dims [] cdat = py_return cdat"
| "concat_records promote_types dims (dat # rest) cdat =
     then_do (concat_variables promote_types dims dat cdat) (\<lambda>cdat'.
       concat_records promote_types dims rest cdat')"

text \<open>
  Lines 157 to 164: for every variable of \<open>cdat\<close> the two lists of \<^verbatim>\<open>dims[v]\<close> are copied
  (\<^verbatim>\<open>copy\<close> of a list makes a new list object); when the first name is \<^verbatim>\<open>'atrack'\<close>, element 0
  of the copied sizes is overwritten with \<^verbatim>\<open>cdat[v].shape[0]\<close>.
\<close>

fun reconcile_dims :: "dims_dict \<Rightarrow> dat_dict \<Rightarrow> dims_dict \<Rightarrow> dims_dict prog" where
  "reconcile_dims dims [] cdims = py_return cdims"
| "reconcile_dims dims ((v, c) # rest) cdims =
     then_do (lift (dict_get dims v)) (\<lambda>d.
     then_do (read_names (names d)) (\<lambda>ns.
     then_do (new_names ns) (\<lambda>new_dim_names.
     then_do (read_sizes (sizes d)) (\<lambda>ks.
     then_do (new_sizes ks) (\<lambda>new_dim_sizes.
     then_do (if length ns > 0 \<and> hd ns = ''atrack''
              then
                then_do (read_array c) (\<lambda>x.
                then_do (lift (py_index (shape x) 0)) (\<lambda>extent.
                  case ks of
                    [] \<Rightarrow> py_raise IndexError
                  | k # ks' \<Rightarrow> write_sizes new_dim_sizes (extent # ks')))
              else py_return ()) (\<lambda>u.
       reconcile_dims dims rest
         (AList.update v \<lparr>names = new_dim_names, sizes = new_dim_sizes\<rparr> cdims)))))))"

definition concat_granules ::
  "(dtype \<Rightarrow> dtype \<Rightarrow> dtype) \<Rightarrow> dat_dict list \<Rightarrow> dims_dict \<Rightarrow> (dat_dict \<times> dims_dict) prog" where
  "concat_granules promote_types dat_list dims =
     then_do (lift (py_index dat_list 0)) (\<lambda>first.
     then_do (seed_cdat first []) (\<lambda>cdat.
     then_do (concat_records promote_types dims (drop 1 dat_list) cdat) (\<lambda>cdat.
     then_do (reconcile_dims dims cdat []) (\<lambda>cdims.
       py_return (cdat, cdims)))))"

text \<open>
  The inputs the aggregator is meant for: the keys of a record are distinct, as those of
  a Python dictionary are, and every reference designates an object of the store.
\<close>

definition valid_dat :: "world \<Rightarrow> dat_dict \<Rightarrow> bool" where
  "valid_dat w dat \<longleftrightarrow> distinct (map fst dat) \<and> (\<forall>(v, a) \<in> set dat. a < length (arrays w))"

definition valid_dims :: "world \<Rightarrow> dims_dict \<Rightarrow> bool" where
  "valid_dims w dims \<longleftrightarrow>
     (\<forall>(v, d) \<in> set dims. names d < length (name_lists w) \<and> sizes d < length (size_lists w))"

text \<open>The extent of an array along its leading axis (0 for an array without axes).\<close>

definition leading_extent :: "ndarray \<Rightarrow> nat" where
  "leading_extent x = (case shape x of [] \<Rightarrow> 0 | m # rest \<Rightarrow> m)"

text \<open>
  The leading extent a record contributes for the variable \<open>v\<close>: that of its array for
  \<open>v\<close>, nothing when the record has no such variable.
\<close>

definition track_extent :: "world \<Rightarrow> string \<Rightarrow> dat_dict \<Rightarrow> nat" where
  "track_extent w v dat =
     (case map_of dat v of None \<Rightarrow> 0 | Some a \<Rightarrow> leading_extent (arrays w ! a))"

section \<open>Writer: \<^verbatim>\<open>write_cdat\<close>\<close>

text \<open>Lines 178 to 181: the merged dimension table, last size written for a name wins.\<close>

fun merge_dims :: "dims_dict \<Rightarrow> (string \<times> nat) list \<Rightarrow> (string \<times> nat) list prog" where
  "merge_dims [] merged_dim_list = py_return merged_dim_list"
| "merge_dims ((v, d) # rest) merged_dim_list =
     then_do (read_names (names d)) (\<lambda>ns.
     then_do (read_sizes (sizes d)) (\<lambda>ks.
       merge_dims rest
         (fold (\<lambda>(dim, dim_size). AList.update dim dim_size) (zip ns ks) merged_dim_list)))"

text \<open>
  The libraries \<^verbatim>\<open>write_cdat\<close> works with.  The netCDF4 writer validates what it is asked
  and may raise: \<open>open_error fname\<close> is the exception \<^verbatim>\<open>netCDF4.Dataset(fname, 'w')\<close> raises,
  if any, and \<open>call_error cs c\<close> is the exception the call \<open>c\<close> raises, if any, on a
  dataset on which the calls \<open>cs\<close> have been made.  \<open>masked_item x i\<close> is what the flat
  iterator of \<^verbatim>\<open>numpy.ma\<close> gives for \<^verbatim>\<open>x.flat[i]\<close> on a \<^verbatim>\<open>MaskedArray\<close> \<open>x\<close>: a value,
  or the exception it raises.
\<close>

record writer =
  open_error :: "string \<Rightarrow> error option"
  call_error :: "nc_call list \<Rightarrow> nc_call \<Rightarrow> error option"
  masked_item :: "ndarray \<Rightarrow> int \<Rightarrow> error + pyval"

text \<open>
  The calls made so far on the dataset written at \<open>fname\<close>, and one more call on it: a
  call the writer accepts is recorded, a call that raises aborts and leaves no record.
\<close>

definition calls_on :: "world \<Rightarrow> string \<Rightarrow> nc_call list" where
  "calls_on w fname = (case map_of (written w) fname of None \<Rightarrow> [] | Some cs \<Rightarrow> cs)"

definition nc_do :: "writer \<Rightarrow> string \<Rightarrow> nc_call \<Rightarrow> unit prog" where
  "nc_do lib fname c w =
     (case call_error lib (calls_on w fname) c of
        Some e \<Rightarrow> (Inl e, w)
      | None \<Rightarrow>
          (Inr (), w\<lparr>written := AList.update fname (calls_on w fname @ [c]) (written w)\<rparr>))"

text \<open>
  \<^verbatim>\<open>netCDF4.Dataset(fname, 'w')\<close>: unless the writer raises, the file is created or
  truncated, and can be read from then on.
\<close>

definition open_for_write :: "writer \<Rightarrow> string \<Rightarrow> unit prog" where
  "open_for_write lib fname w =
     (case open_error lib fname of
        Some e \<Rightarrow> (Inl e, w\<lparr>trace := trace w @ [EvDatasetWrite fname]\<rparr>)
      | None \<Rightarrow>
          (Inr (), w\<lparr>trace := trace w @ [EvDatasetWrite fname],
                     written := AList.update fname [] (written w),
                     readable := insert fname (readable w)\<rparr>))"

fun create_dimensions :: "writer \<Rightarrow> string \<Rightarrow> (string \<times> nat) list \<Rightarrow> unit prog" where
  "create_dimensions lib fname [] = py_return ()"
| "create_dimensions lib fname ((dim, dim_size) # rest) =
     then_do (nc_do lib fname (CreateDimension dim dim_size)) (\<lambda>u.
       create_dimensions lib fname rest)"

definition format_error :: string where
  "format_error = ''concatenated array has type object, and does not contain python strings. Cannot write batch to netCDF4''"

text \<open>
  \<^verbatim>\<open>x.flat[0]\<close>: on a plain \<^verbatim>\<open>ndarray\<close> the first element of the data, IndexError when there
  is none; on a \<^verbatim>\<open>MaskedArray\<close> what the flat iterator of \<^verbatim>\<open>numpy.ma\<close> gives.
\<close>

definition first_element :: "writer \<Rightarrow> ndarray \<Rightarrow> error + pyval" where
  "first_element lib x =
     (case mask x of None \<Rightarrow> py_index (flat x) 0 | Some m \<Rightarrow> masked_item lib x 0)"

text \<open>Lines 194 to 206: the element type handed to \<^verbatim>\<open>createVariable\<close>.\<close>

definition output_dtype :: "writer \<Rightarrow> ndarray \<Rightarrow> error + nc_type" where
  "output_dtype lib x =
     (if dtype x = DObject
      then and_then (first_element lib x) (\<lambda>first.
             if is_str first then Inr NcStr else Inl (ValueError format_error))
      else Inr (NcDtype (dtype x)))"

text \<open>Lines 216 to 219: every attribute but \<^verbatim>\<open>'_FillValue'\<close> goes through \<^verbatim>\<open>setncattr\<close>.\<close>

fun write_attrs :: "writer \<Rightarrow> string \<Rightarrow> string \<Rightarrow> (string \<times> pyval) list \<Rightarrow> unit prog" where
  "write_attrs lib fname v [] = py_return ()"
| "write_attrs lib fname v ((aname, avalue) # rest) =
     (if aname = ''_FillValue'' then write_attrs lib fname v rest
      else then_do (nc_do lib fname (SetNcAttr v aname avalue)) (\<lambda>u.
             write_attrs lib fname v rest))"

text \<open>Lines 186 to 219, the loop over the variables of \<open>cdat\<close>.\<close>

fun write_variables ::
  "writer \<Rightarrow> string \<Rightarrow> dat_dict \<Rightarrow> dims_dict \<Rightarrow> attrs_dict \<Rightarrow> unit prog" where
  "write_variables lib fname [] dims attrs = py_return ()"
| "write_variables lib fname ((v, a) # rest) dims attrs =
     then_do (lift (dict_get attrs v)) (\<lambda>av.
     then_do (py_return (map_of av ''_FillValue'')) (\<lambda>fill_value.
     then_do (read_array a) (\<lambda>x.
     then_do (lift (output_dtype lib x)) (\<lambda>out_type.
     then_do (lift (dict_get dims v)) (\<lambda>d.
     then_do (read_names (names d)) (\<lambda>ns.
     then_do (nc_do lib fname (CreateVariable v out_type ns ''zlib'' 1 fill_value)) (\<lambda>u.
     then_do (nc_do lib fname (AssignData v x)) (\<lambda>u.
     then_do (write_attrs lib fname v av) (\<lambda>u.
       write_variables lib fname rest dims attrs)))))))))"

text \<open>\<^verbatim>\<open>write_cdat\<close>; \<open>lib\<close> stands for the libraries it works with.\<close>

definition write_cdat ::
  "writer \<Rightarrow> dat_dict \<Rightarrow> dims_dict \<Rightarrow> attrs_dict \<Rightarrow> string \<Rightarrow> unit prog" where
  "write_cdat lib cdat dims attrs fname =
     then_do (merge_dims dims []) (\<lambda>merged_dim_list.
     then_do (open_for_write lib fname) (\<lambda>u.
     then_do (create_dimensions lib fname merged_dim_list) (\<lambda>u.
       write_variables lib fname cdat dims attrs)))"

text \<open>
  An array the writer refuses: its element type is \<^verbatim>\<open>object\<close> and \<^verbatim>\<open>x.flat[0]\<close> gives a value
  that is not a \<^verbatim>\<open>str\<close>.
\<close>

definition object_not_str :: "writer \<Rightarrow> ndarray \<Rightarrow> bool" where
  "object_not_str lib x \<longleftrightarrow>
     dtype x = DObject
     \<and> (case first_element lib x of Inl e \<Rightarrow> False | Inr first \<Rightarrow> \<not> is_str first)"

text \<open>
  For the proofs about the writer.  \<open>variable_block\<close> is what one pass of the variable
  loop asks of the netCDF4 writer, in order, or the exception the pass itself raises
  before asking anything.  \<open>write_plan\<close> is what the whole loop asks when the netCDF4
  writer accepts every call, up to the first exception a pass raises itself, with that
  exception.  \<open>do_calls\<close> makes a list of calls one after the other and stops at the first
  that the netCDF4 writer refuses.  \<open>dimension_calls\<close> are the calls of the dimension
  loop, and \<open>opened fname w\<close> is the world once the output file has been opened.
  \<open>never_raises lib e\<close> says that the libraries \<open>lib\<close> never raise the exception \<open>e\<close>, and
  \<open>accepts_all\<close> are libraries for the examples: a netCDF4 writer that accepts every call,
  and a flat iterator that gives the elements of the data.
\<close>

definition attr_calls :: "string \<Rightarrow> (string \<times> pyval) list \<Rightarrow> nc_call list" where
  "attr_calls v av = map (\<lambda>(aname, avalue). SetNcAttr v aname avalue)
                       (filter (\<lambda>(aname, avalue). aname \<noteq> ''_FillValue'') av)"

definition variable_block ::
  "writer \<Rightarrow> ndarray list \<Rightarrow> string list list \<Rightarrow> dims_dict \<Rightarrow> attrs_dict \<Rightarrow> string \<Rightarrow> ref
     \<Rightarrow> error + nc_call list" where
  "variable_block lib arrs nls dims attrs v a =
     and_then (dict_get attrs v) (\<lambda>av.
     and_then (if a < length arrs then Inr (arrs ! a) else Inl Dangling) (\<lambda>x.
     and_then (output_dtype lib x) (\<lambda>out_type.
     and_then (dict_get dims v) (\<lambda>d.
     and_then (if names d < length nls then Inr (nls ! names d) else Inl Dangling) (\<lambda>ns.
       Inr (CreateVariable v out_type ns ''zlib'' 1 (map_of av ''_FillValue'')
            # AssignData v x # attr_calls v av))))))"

fun write_plan ::
  "writer \<Rightarrow> ndarray list \<Rightarrow> string list list \<Rightarrow> dims_dict \<Rightarrow> attrs_dict \<Rightarrow> dat_dict
     \<Rightarrow> (error + unit) \<times> nc_call list" where
  "write_plan lib arrs nls dims attrs [] = (Inr (), [])"
| "write_plan lib arrs nls dims attrs ((v, a) # rest) =
     (case variable_block lib arrs nls dims attrs v a of
        Inl e \<Rightarrow> (Inl e, [])
      | Inr cs \<Rightarrow>
          (fst (write_plan lib arrs nls dims attrs rest),
           cs @ snd (write_plan lib arrs nls dims attrs rest)))"

definition dimension_calls :: "(string \<times> nat) list \<Rightarrow> nc_call list" where
  "dimension_calls m = map (\<lambda>(dim, dim_size). CreateDimension dim dim_size) m"

definition opened :: "string \<Rightarrow> world \<Rightarrow> world" where
  "opened fname w = w\<lparr>trace := trace w @ [EvDatasetWrite fname],
                       written := AList.update fname [] (written w),
                       readable := insert fname (readable w)\<rparr>"

fun do_calls :: "writer \<Rightarrow> string \<Rightarrow> nc_call list \<Rightarrow> unit prog" where
  "do_calls lib fname [] = py_return ()"
| "do_calls lib fname (c # cs) = then_do (nc_do lib fname c) (\<lambda>u. do_calls lib fname cs)"

definition never_raises :: "writer \<Rightarrow> error \<Rightarrow> bool" where
  "never_raises lib e \<longleftrightarrow>
     (\<forall>fname. open_error lib fname \<noteq> Some e) \<and> (\<forall>cs c. call_error lib cs c \<noteq> Some e)
     \<and> (\<forall>x i. masked_item lib x i \<noteq> Inl e)"

definition accepts_all :: writer where
  "accepts_all =
     \<lparr>open_error = (\<lambda>fname. None), call_error = (\<lambda>cs c. None),
      masked_item = (\<lambda>x i. py_index (flat x) i)\<rparr>"

text \<open>Two worlds that differ at most in what has been written to the output files.\<close>

definition same_store :: "world \<Rightarrow> world \<Rightarrow> bool" where
  "same_store w w' \<longleftrightarrow> arrays w' = arrays w \<and> name_lists w' = name_lists w
      \<and> size_lists w' = size_lists w \<and> trace w' = trace w \<and> readable w' = readable w"

section \<open>A sample day\<close>

text \<open>
  The store after two granules have been loaded, for the examples: \<^verbatim>\<open>lat\<close> with the
  dimension \<^verbatim>\<open>atrack\<close> (extents 2 and 3), \<^verbatim>\<open>land_frac\<close> without dimensions, and two arrays
  of element type \<^verbatim>\<open>object\<close>, one of strings and one of integers.  The dimension
  descriptors and the attributes are those of the second granule.
\<close>

definition sample_world :: world where
  "sample_world =
     \<lparr>arrays =
        [\<lparr>dtype = DNative ''float32'', shape = [2], flat = [PyOther ''10.5'', PyOther ''11.5''], mask = None\<rparr>,
         \<lparr>dtype = DNative ''float32'', shape = [], flat = [PyOther ''0.25''], mask = None\<rparr>,
         \<lparr>dtype = DNative ''float32'', shape = [3],
           flat = [PyOther ''12.5'', PyOther ''13.5'', PyOther ''14.5''], mask = None\<rparr>,
         \<lparr>dtype = DNative ''float32'', shape = [], flat = [PyOther ''0.75''], mask = None\<rparr>,
         \<lparr>dtype = DObject, shape = [1], flat = [PyStr ''ok''], mask = None\<rparr>,
         \<lparr>dtype = DObject, shape = [1], flat = [PyInt 7], mask = None\<rparr>],
      name_lists = [[''atrack''], []],
      size_lists = [[3], []],
      trace = [], written = [], readable = {}\<rparr>"

definition sample_dat_list :: "dat_dict list" where
  "sample_dat_list = [[(''lat'', 0), (''land_frac'', 1)], [(''lat'', 2), (''land_frac'', 3)]]"

definition sample_dims :: dims_dict where
  "sample_dims = [(''lat'', \<lparr>names = 0, sizes = 0\<rparr>), (''land_frac'', \<lparr>names = 1, sizes = 1\<rparr>),
                  (''note'', \<lparr>names = 0, sizes = 0\<rparr>)]"

definition sample_attrs :: attrs_dict where
  "sample_attrs = [(''lat'', [(''_FillValue'', PyInt (- 9999)), (''units'', PyStr ''K'')]),
                   (''land_frac'', []), (''note'', [])]"

text \<open>
  The store handed to the writer, for the examples: \<^verbatim>\<open>lat\<close> with five values along
  \<^verbatim>\<open>atrack\<close>, \<^verbatim>\<open>land_frac\<close> without dimensions, \<^verbatim>\<open>flag\<close> of element type \<^verbatim>\<open>object\<close> holding
  integers, and \<^verbatim>\<open>empty\<close> of element type \<^verbatim>\<open>object\<close> without elements.
\<close>

definition output_world :: world where
  "output_world =
     \<lparr>arrays =
        [\<lparr>dtype = DNative ''float32'', shape = [5],
           flat = [PyOther ''10.5'', PyOther ''11.5'', PyOther ''12.5'', PyOther ''13.5'',
                   PyOther ''14.5''], mask = None\<rparr>,
         \<lparr>dtype = DNative ''float32'', shape = [], flat = [PyOther ''0.25''], mask = None\<rparr>,
         \<lparr>dtype = DObject, shape = [5],
           flat = [PyInt 7, PyInt 7, PyInt 7, PyInt 7, PyInt 7], mask = None\<rparr>,
         \<lparr>dtype = DObject, shape = [0], flat = [], mask = None\<rparr>],
      name_lists = [[''atrack''], [], [''atrack''], [''obs'']],
      size_lists = [[5], [], [5], [0]],
      trace = [], written = [], readable = {}\<rparr>"

definition output_dims :: dims_dict where
  "output_dims = [(''lat'', \<lparr>names = 0, sizes = 0\<rparr>), (''land_frac'', \<lparr>names = 1, sizes = 1\<rparr>),
                  (''flag'', \<lparr>names = 2, sizes = 2\<rparr>)]"

definition output_attrs :: attrs_dict where
  "output_attrs = [(''lat'', [(''_FillValue'', PyInt (- 9999)), (''units'', PyStr ''K'')]),
                   (''land_frac'', []), (''flag'', [])]"

definition refused_dims :: dims_dict where
  "refused_dims = [(''empty'', \<lparr>names = 3, sizes = 3\<rparr>), (''flag'', \<lparr>names = 2, sizes = 2\<rparr>)]"

definition refused_attrs :: attrs_dict where
  "refused_attrs = [(''empty'', []), (''flag'', [])]"

text \<open>
  \<open>extends w w'\<close>: every object of the store of \<open>w\<close> is in the store of \<open>w'\<close> under the same
  reference and unchanged (objects may have been added), and nothing else of the world
  differs.
\<close>

definition extends :: "world \<Rightarrow> world \<Rightarrow> bool" where
  "extends w w' \<longleftrightarrow>
     (\<exists>xs. arrays w' = arrays w @ xs) \<and>
     (\<exists>ns. name_lists w' = name_lists w @ ns) \<and>
     (\<exists>ks. size_lists w' = size_lists w @ ks) \<and>
     trace w' = trace w \<and> written w' = written w \<and> readable w' = readable w"

text \<open>
  The pass of the aggregator's inner loop over a variable \<open>v\<close>: \<open>skips\<close> when the variable
  has no track dimension (an empty dimension list included), \<open>joins\<close> when it has one and
  the concatenation succeeds with the array \<open>xy\<close>.  \<open>tracked\<close> says that \<open>v\<close> has the track
  dimension, and \<open>has_extent\<close> that the aggregate's array for \<open>v\<close>, if there is one, has
  the leading extent \<open>S\<close>.
\<close>

definition skips :: "world \<Rightarrow> dims_dict \<Rightarrow> string \<Rightarrow> bool" where
  "skips w dims v \<longleftrightarrow>
     (\<exists>d. map_of dims v = Some d \<and> names d < length (name_lists w)
        \<and> ''atrack'' \<notin> set (name_lists w ! names d))"

definition joins ::
  "(dtype \<Rightarrow> dtype \<Rightarrow> dtype) \<Rightarrow> world \<Rightarrow> dims_dict \<Rightarrow> dat_dict \<Rightarrow> string \<Rightarrow> ref \<Rightarrow> ndarray
     \<Rightarrow> bool" where
  "joins p w dims cdat v a xy \<longleftrightarrow>
     (\<exists>d c. map_of dims v = Some d \<and> names d < length (name_lists w)
        \<and> ''atrack'' \<in> set (name_lists w ! names d)
        \<and> map_of cdat v = Some c \<and> c < length (arrays w) \<and> a < length (arrays w)
        \<and> np_concatenate p (arrays w ! c) (arrays w ! a) = Inr xy)"

definition tracked :: "world \<Rightarrow> dims_dict \<Rightarrow> string \<Rightarrow> bool" where
  "tracked w dims v \<longleftrightarrow>
     (\<exists>d. map_of dims v = Some d \<and> names d < length (name_lists w)
        \<and> ''atrack'' \<in> set (name_lists w ! names d))"

definition has_extent :: "world \<Rightarrow> dat_dict \<Rightarrow> string \<Rightarrow> nat \<Rightarrow> bool" where
  "has_extent w cdat v S \<longleftrightarrow>
     (\<forall>c. map_of cdat v = Some c \<longrightarrow>
        c < length (arrays w) \<and> leading_extent (arrays w ! c) = S)"

text \<open>The world after the sample day has been aggregated.\<close>

definition sample_aggregate :: world where
  "sample_aggregate =
     sample_world
       \<lparr>arrays := arrays sample_world @
          [\<lparr>dtype = DNative ''float32'', shape = [2], flat = [PyOther ''10.5'', PyOther ''11.5''], mask = None\<rparr>,
           \<lparr>dtype = DNative ''float32'', shape = [], flat = [PyOther ''0.25''], mask = None\<rparr>,
           \<lparr>dtype = DNative ''float32'', shape = [5],
             flat = [PyOther ''10.5'', PyOther ''11.5'', PyOther ''12.5'', PyOther ''13.5'',
                     PyOther ''14.5''], mask = None\<rparr>],
        name_lists := [[''atrack''], [], [''atrack''], []],
        size_lists := [[3], [], [5], []]\<rparr>"

section \<open>Orchestrator: \<^verbatim>\<open>run_subagg\<close>\<close>

text \<open>
  The collaborators, as functions: \<open>ea_search_data short_name year doy\<close> is what
  \<^verbatim>\<open>earthaccess.search_data\<close> gives for the product and the window of that day, and
  \<open>window_ymd year doy\<close> is \<^verbatim>\<open>window_start.strftime('%Y%m%d')\<close>; \<open>ea_download k\<close> is what the
  \<open>k\<close>-th invocation of \<^verbatim>\<open>earthaccess.download\<close> returns; \<open>ea_open\<close> is
  \<^verbatim>\<open>earthaccess.open\<close>; \<open>nc_open_file\<close> and \<open>nc_open_memory\<close> are \<^verbatim>\<open>netCDF4.Dataset\<close> on a
  path and on a byte payload; \<open>nc_writer\<close> stands for the libraries of the writer; \<open>np_promote_types\<close> is
  numpy's promotion table.
\<close>

record env =
  ea_search_data :: "string \<Rightarrow> int \<Rightarrow> int \<Rightarrow> error + granule list"
  window_ymd :: "int \<Rightarrow> int \<Rightarrow> string"
  ea_download :: "nat \<Rightarrow> granule list \<Rightarrow> string \<Rightarrow> dl_entry list"
  ea_open :: "granule list \<Rightarrow> error + s3_obj list"
  nc_open_file :: "string \<Rightarrow> error + nc_dataset"
  nc_open_memory :: "bytes \<Rightarrow> error + nc_dataset"
  nc_writer :: writer
  np_promote_types :: "dtype \<Rightarrow> dtype \<Rightarrow> dtype"

definition get_climcaps_short_name :: "string \<Rightarrow> error + string" where
  "get_climcaps_short_name platform =
     dict_get [(''snpp-normal'', ''SNDRSNIML2CCPRETN''),
               (''snpp-full'', ''SNDRSNIML2CCPRET''),
               (''jpss1'', ''SNDRJ1IML2CCPRET'')] platform"

text \<open>\<^verbatim>\<open>os.remove(fpath)\<close>: the file is gone afterwards.\<close>

definition os_remove :: "string \<Rightarrow> unit prog" where
  "os_remove fpath w =
     (Inr (), w\<lparr>trace := trace w @ [EvRemove fpath], readable := readable w - {fpath}\<rparr>)"

text \<open>
  The two loading loops (lines 264 to 267 and 270 to 274).  \<open>dims\<close> and \<open>attrs\<close> are
  assigned in the loop body and read after the loop: \<open>latest\<close> holds their values from the
  latest pass, \<open>None\<close> while the names are unbound.
\<close>

fun load_files ::
  "(string \<Rightarrow> error + nc_dataset) \<Rightarrow> string list \<Rightarrow> string list \<Rightarrow> dat_dict list
     \<Rightarrow> (dims_dict \<times> attrs_dict) option
     \<Rightarrow> (dat_dict list \<times> (dims_dict \<times> attrs_dict) option) prog" where
  "load_files open_file [] var_list dat_list latest = py_return (dat_list, latest)"
| "load_files open_file (fpath # rest) var_list dat_list latest =
     then_do (load_granule_from_file open_file fpath var_list) (\<lambda>(dat, dims, attrs).
     then_do (os_remove fpath) (\<lambda>u.
       load_files open_file rest var_list (dat_list @ [dat]) (Some (dims, attrs))))"

fun load_s3_objs ::
  "(bytes \<Rightarrow> error + nc_dataset) \<Rightarrow> s3_obj list \<Rightarrow> string list \<Rightarrow> dat_dict list
     \<Rightarrow> (dims_dict \<times> attrs_dict) option
     \<Rightarrow> (dat_dict list \<times> (dims_dict \<times> attrs_dict) option) prog" where
  "load_s3_objs open_memory [] var_list dat_list latest = py_return (dat_list, latest)"
| "load_s3_objs open_memory (s3 # rest) var_list dat_list latest =
     then_do (load_granule_from_s3 open_memory s3 var_list) (\<lambda>(dat, dims, attrs).
     then_do (log_event (EvClose (s3_name s3))) (\<lambda>u.
       load_s3_objs open_memory rest var_list (dat_list @ [dat]) (Some (dims, attrs))))"

text \<open>
  Lines 276 to 278.  When no granule was loaded, \<open>dims\<close> is unbound and evaluating the
  arguments of \<^verbatim>\<open>concat_granules(dat_list, dims)\<close> raises UnboundLocalError.
\<close>

definition aggregate_and_write ::
  "env \<Rightarrow> dat_dict list \<Rightarrow> (dims_dict \<times> attrs_dict) option \<Rightarrow> string \<Rightarrow> unit prog" where
  "aggregate_and_write env dat_list latest output_file =
     (case latest of
        None \<Rightarrow> py_raise (UnboundLocalError ''dims'')
      | Some (dims, attrs) \<Rightarrow>
          then_do (concat_granules (np_promote_types env) dat_list dims) (\<lambda>(cdat, cdims).
            write_cdat (nc_writer env) cdat cdims attrs output_file))"

text \<open>
  \<^verbatim>\<open>run_subagg\<close>.  The result is \<open>None\<close> when the download loop does not return within the
  fuel.  A completed batch download leaves the returned paths readable.  Nothing in the
  function reads the state of \<open>output_file\<close>.
\<close>

definition run_subagg ::
  "nat \<Rightarrow> env \<Rightarrow> int \<Rightarrow> int \<Rightarrow> string \<Rightarrow> string list \<Rightarrow> string \<Rightarrow> bool \<Rightarrow> string
     \<Rightarrow> world \<Rightarrow> ((error + unit) \<times> world) option" where
  "run_subagg fuel env year doy platform var_list output_file local_download tmp_dir w =
     (case get_climcaps_short_name platform of
        Inl e \<Rightarrow> Some (Inl e, w)
      | Inr short_name \<Rightarrow>
          (let w1 = w\<lparr>trace := trace w @ [EvSearch short_name year doy]\<rparr> in
           case and_then (ea_search_data env short_name year doy)
                  (get_granule_list (window_ymd env year doy)) of
             Inl e \<Rightarrow> Some (Inl e, w1)
           | Inr granule_list \<Rightarrow>
               if length granule_list = 0
               then Some (Inr (), w1\<lparr>trace := trace w1 @ [EvPrint (NoGranules year doy)]\<rparr>)
               else if local_download
               then
                 (case earthaccess_download fuel (ea_download env) granule_list tmp_dir of
                    None \<Rightarrow> None
                  | Some (r, n) \<Rightarrow>
                      (let w2 = w1\<lparr>trace := trace w1 @ EvMkdir tmp_dir
                                                     # replicate n (EvDownload tmp_dir)\<rparr>
                       in case r of
                            Inl e \<Rightarrow> Some (Inl e, w2)
                          | Inr downloaded_filepaths \<Rightarrow>
                              Some (then_do
                                      (load_files (nc_open_file env) downloaded_filepaths
                                         var_list [] None)
                                      (\<lambda>(dat_list, latest).
                                         aggregate_and_write env dat_list latest output_file)
                                      (w2\<lparr>readable := readable w2
                                                         \<union> set downloaded_filepaths\<rparr>))))
               else
                 Some (then_do (log_event EvOpen) (\<lambda>u.
                       then_do (lift (ea_open env granule_list)) (\<lambda>s3_objs.
                       then_do (load_s3_objs (nc_open_memory env) s3_objs var_list [] None)
                         (\<lambda>(dat_list, latest).
                            aggregate_and_write env dat_list latest output_file))) w1)))"

section \<open>Driver: the loop of \<^verbatim>\<open>ghg_project_production.py\<close>\<close>

text \<open>\<^verbatim>\<open>format(n, 'd')\<close> for a natural number, and the two fields of the output name.\<close>

function nat_digits :: "nat \<Rightarrow> string" where
  "nat_digits n =
     (if n < 10 then [''0123456789'' ! n]
      else nat_digits (n div 10) @ [''0123456789'' ! (n mod 10)])"
  by pat_completeness auto
termination
  by (relation "measure id") auto

text \<open>\<^verbatim>\<open>'{:4d}'\<close>: right-aligned in a field of four, padded with spaces.\<close>

definition format_4d :: "int \<Rightarrow> string" where
  "format_4d i =
     (let s = (if i < 0 then ''-'' @ nat_digits (nat (- i)) else nat_digits (nat i))
      in replicate (4 - length s) CHR '' '' @ s)"

text \<open>\<^verbatim>\<open>'{:03d}'\<close>: padded with zeros after the sign to a field of three.\<close>

definition format_03d :: "int \<Rightarrow> string" where
  "format_03d i =
     (if i < 0
      then ''-'' @ replicate (2 - length (nat_digits (nat (- i)))) CHR ''0''
             @ nat_digits (nat (- i))
      else replicate (3 - length (nat_digits (nat i))) CHR ''0'' @ nat_digits (nat i))"

definition output_file_name :: "string \<Rightarrow> int \<Rightarrow> int \<Rightarrow> string" where
  "output_file_name short_name year doy =
     short_name @ ''_subaggregate_'' @ format_4d year @ ''-'' @ format_03d doy @ ''.nc''"

text \<open>
  One pass of the loop over \<^verbatim>\<open>doy_list\<close> (lines 64 to 76 of
  \<^verbatim>\<open>ghg_project_production.py\<close>; the yearly script has the same test on its output path).
  \<open>platform\<close>, \<open>short_name\<close>, \<open>year\<close> and \<open>var_list\<close> are the module-level constants of the
  script.  This is where the output path is tested: a readable output file skips the day.
\<close>

definition production_day ::
  "nat \<Rightarrow> env \<Rightarrow> string \<Rightarrow> string \<Rightarrow> int \<Rightarrow> string list \<Rightarrow> int
     \<Rightarrow> world \<Rightarrow> ((error + unit) \<times> world) option" where
  "production_day fuel env platform short_name year var_list doy w =
     (let output_file = output_file_name short_name year doy in
      if output_file \<in> readable w
      then Some (Inr (), w\<lparr>trace := trace w @ [EvPrint (Skipping year doy)]\<rparr>)
      else
        (case run_subagg fuel env year doy platform var_list output_file True
                ''climcaps_subagg_tmp''
                (w\<lparr>trace := trace w @ [EvPrint (Computing year doy)]\<rparr>) of
           None \<Rightarrow> None
         | Some (Inl e, w') \<Rightarrow> Some (Inl e, w')
         | Some (Inr u, w') \<Rightarrow> Some (Inr (), w'\<lparr>trace := trace w' @ [EvPrint Elapsed]\<rparr>)))"

text \<open>The loop: an exception in one day ends the script.\<close>

fun production_days ::
  "nat \<Rightarrow> env \<Rightarrow> string \<Rightarrow> string \<Rightarrow> int \<Rightarrow> string list \<Rightarrow> int list
     \<Rightarrow> world \<Rightarrow> ((error + unit) \<times> world) option" where
  "production_days fuel env platform short_name year var_list [] w = Some (Inr (), w)"
| "production_days fuel env platform short_name year var_list (doy # rest) w =
     (case production_day fuel env platform short_name year var_list doy w of
        None \<Rightarrow> None
      | Some (Inl e, w') \<Rightarrow> Some (Inl e, w')
      | Some (Inr u, w') \<Rightarrow> production_days fuel env platform short_name year var_list rest w')"

text \<open>
  A catalog with one granule of 2015-01-08 whose payload holds the variable \<^verbatim>\<open>lat\<close>, for
  the examples.
\<close>

definition sample_dataset :: nc_dataset where
  "sample_dataset =
     \<lparr>root_dimensions = [(''atrack'', 2)], group_dimensions = [],
      variables = [(''lat'',
        \<lparr>var_data = \<lparr>dtype = DNative ''float32'', shape = [2],
                       flat = [PyOther ''10.5'', PyOther ''11.5''], mask = None\<rparr>,
         var_dimensions = [''atrack''],
         var_ncattrs = [(''units'', PyStr ''degrees_north'')]\<rparr>)]\<rparr>"

definition sample_env :: env where
  "sample_env =
     \<lparr>ea_search_data = (\<lambda>short_name year doy.
        Inr [\<lparr>data_links = [''s3://b/SNDR.SNPP.CRIMSS.20150108T0000.m06.g001.nc'']\<rparr>]),
      window_ymd = (\<lambda>year doy. ''20150108''),
      ea_download = (\<lambda>k granule_list tmp_dir. [Path ''g001.nc'']),
      ea_open = (\<lambda>granule_list. Inr [\<lparr>s3_name = ''g001'', read_result = Inr ''CDF''\<rparr>]),
      nc_open_file = (\<lambda>fname. Inr sample_dataset),
      nc_open_memory = (\<lambda>b. Inr sample_dataset),
      nc_writer = accepts_all,
      np_promote_types = (\<lambda>a b. a)\<rparr>"

section \<open>Properties of the catalog resolver\<close>

lemma py_index_first: "xs \<noteq> [] \<Longrightarrow> py_index xs 0 = Inr (hd xs)"
  by (cases xs) (simp_all add: py_index_def)

lemma py_index_last: "xs \<noteq> [] \<Longrightarrow> py_index xs (- 1) = Inr (last xs)"
  by (simp add: py_index_def Let_def last_conv_nth nat_diff_distrib' of_nat_diff)

lemma py_index_Nil: "py_index [] i = Inl IndexError"
  by (simp add: py_index_def)

lemma py_pop_first: "xs \<noteq> [] \<Longrightarrow> py_pop xs 0 = Inr (tl xs)"
  by (cases xs) (simp_all add: py_pop_def drop_Suc)

lemma py_pop_last: "xs \<noteq> [] \<Longrightarrow> py_pop xs (- 1) = Inr (butlast xs)"
proof -
  assume ne: "xs \<noteq> []"
  then have n: "nat (- 1 + int (length xs)) = length xs - 1"
    by (cases xs) simp_all
  from ne have "take (length xs - 1) xs @ drop (Suc (length xs - 1)) xs = butlast xs"
    by (simp add: butlast_conv_take)
  with ne n show ?thesis
    by (simp add: py_pop_def Let_def)
qed

lemma trim_at_first:
  assumes "gl \<noteq> []" and "primary_ymd (hd gl) = Inr t"
  shows "trim_at e 0 gl = Inr (if t \<noteq> e then tl gl else gl)"
  using assms
  by (auto simp: trim_at_def primary_ymd_def link_ymd_def and_then_def py_index_first
      py_pop_first Let_def split: sum.splits)

lemma trim_at_last:
  assumes "gl \<noteq> []" and "final_ymd (last gl) = Inr t"
  shows "trim_at e (- 1) gl = Inr (if t \<noteq> e then butlast gl else gl)"
  using assms
  by (auto simp: trim_at_def final_ymd_def link_ymd_def and_then_def py_index_last
      py_pop_last Let_def split: sum.splits)

text \<open>
  C2, as the specification states it, fails: the pass over the last position reads
  \<^verbatim>\<open>data_links()[-1]\<close>, the last link of the last granule, not its primary link.  Here the
  last granule's primary link carries the requested day and its second link the next day;
  the granule is dropped although its primary token equals the requested day.
\<close>

theorem get_granule_list_primary_link_counterexample:
  "get_granule_list ''20150101''
     [\<lparr>data_links = [''s3://b/SNDR.J1.CRIMSS.20150101T0000.m06.g001.nc'']\<rparr>,
      \<lparr>data_links = [''s3://b/SNDR.J1.CRIMSS.20150101T2354.m06.g240.nc'',
                      ''s3://c/SNDR.J1.CRIMSS.20150102T0000.m06.g001.nc'']\<rparr>]
     = Inr [\<lparr>data_links = [''s3://b/SNDR.J1.CRIMSS.20150101T0000.m06.g001.nc'']\<rparr>]
   \<and> primary_ymd \<lparr>data_links = [''s3://b/SNDR.J1.CRIMSS.20150101T2354.m06.g240.nc'',
                      ''s3://c/SNDR.J1.CRIMSS.20150102T0000.m06.g001.nc'']\<rparr>
     = Inr ''20150101''"
  by (simp add: get_granule_list_def trim_at_def primary_ymd_def link_ymd_def and_then_def
      py_index_def py_pop_def)

text \<open>
  C2 (amended): for a non-empty query result whose first granule's first link and whose
  last granule's last link carry a date token, and which has at least two entries or a
  first entry of the requested day, \<^verbatim>\<open>get_granule_list\<close> drops the first entry exactly when
  the token of its first data link differs from the requested day, and drops the last
  entry exactly when the token of its last data link differs from the requested day;
  nothing else is removed.
\<close>

theorem get_granule_list_boundary_tokens:
  assumes "gl \<noteq> []"
    and "primary_ymd (hd gl) = Inr t0"
    and "final_ymd (last gl) = Inr t1"
    and "2 \<le> length gl \<or> t0 = e"
  shows "get_granule_list e gl =
           Inr (let xs = (if t0 \<noteq> e then tl gl else gl)
                in if t1 \<noteq> e then butlast xs else xs)"
proof (cases "t0 = e")
  case True
  with assms show ?thesis
    by (simp add: get_granule_list_def trim_at_first trim_at_last and_then_def)
next
  case False
  with assms have len: "2 \<le> length gl" by simp
  then have tl_ne: "tl gl \<noteq> []" by (cases gl) auto
  then have "last (tl gl) = last gl" by (simp add: last_tl)
  with assms False tl_ne show ?thesis
    by (simp add: get_granule_list_def trim_at_first trim_at_last and_then_def)
qed

theorem get_granule_list_boundary_tokens_witness:
  "primary_ymd \<lparr>data_links = [''s3://b/SNDR.J1.CRIMSS.20141231T2354.m06.g240.nc'']\<rparr>
     = Inr ''20141231''
   \<and> final_ymd \<lparr>data_links = [''s3://b/SNDR.J1.CRIMSS.20150102T0000.m06.g001.nc'']\<rparr>
     = Inr ''20150102''
   \<and> get_granule_list ''20150101''
     [\<lparr>data_links = [''s3://b/SNDR.J1.CRIMSS.20141231T2354.m06.g240.nc'']\<rparr>,
      \<lparr>data_links = [''s3://b/SNDR.J1.CRIMSS.20150101T0000.m06.g001.nc'']\<rparr>,
      \<lparr>data_links = [''s3://b/SNDR.J1.CRIMSS.20150102T0000.m06.g001.nc'']\<rparr>]
     = Inr [\<lparr>data_links = [''s3://b/SNDR.J1.CRIMSS.20150101T0000.m06.g001.nc'']\<rparr>]"
proof -
  have p: "primary_ymd \<lparr>data_links = [''s3://b/SNDR.J1.CRIMSS.20141231T2354.m06.g240.nc'']\<rparr>
             = Inr ''20141231''"
    by (simp add: primary_ymd_def link_ymd_def and_then_def py_index_def)
  have f: "final_ymd \<lparr>data_links = [''s3://b/SNDR.J1.CRIMSS.20150102T0000.m06.g001.nc'']\<rparr>
             = Inr ''20150102''"
    by (simp add: final_ymd_def link_ymd_def and_then_def py_index_def)
  show ?thesis
    using p f get_granule_list_boundary_tokens
      [of "[\<lparr>data_links = [''s3://b/SNDR.J1.CRIMSS.20141231T2354.m06.g240.nc'']\<rparr>,
            \<lparr>data_links = [''s3://b/SNDR.J1.CRIMSS.20150101T0000.m06.g001.nc'']\<rparr>,
            \<lparr>data_links = [''s3://b/SNDR.J1.CRIMSS.20150102T0000.m06.g001.nc'']\<rparr>]"
          "''20141231''" "''20150102''" "''20150101''"]
    by simp
qed

text \<open>
  C3: a query result of exactly one entry whose date token differs from the requested day.
  The specification requires the empty list; the code removes the entry in the first pass
  and then indexes the emptied list in the second pass, which raises IndexError.
\<close>

theorem get_granule_list_single_stale_raises:
  assumes "primary_ymd g = Inr t" and "t \<noteq> e"
  shows "get_granule_list e [g] = Inl IndexError"
  using assms trim_at_first [of "[g]" t e]
  by (simp add: get_granule_list_def and_then_def trim_at_def py_index_Nil)

theorem get_granule_list_single_stale_raises_witness:
  "primary_ymd \<lparr>data_links = [''s3://b/SNDR.J1.CRIMSS.20141231T2354.m06.g240.nc'']\<rparr>
     = Inr ''20141231''
   \<and> ''20141231'' \<noteq> ''20150101''
   \<and> get_granule_list ''20150101''
        [\<lparr>data_links = [''s3://b/SNDR.J1.CRIMSS.20141231T2354.m06.g240.nc'']\<rparr>]
      = Inl IndexError"
proof -
  have p: "primary_ymd \<lparr>data_links = [''s3://b/SNDR.J1.CRIMSS.20141231T2354.m06.g240.nc'']\<rparr>
             = Inr ''20141231''"
    by (simp add: primary_ymd_def link_ymd_def and_then_def py_index_def)
  have d: "''20141231'' \<noteq> ''20150101''" by simp
  show ?thesis
    using p d get_granule_list_single_stale_raises [OF p d] by simp
qed

section \<open>Properties of the transfer retry wrapper\<close>

declare download_loop.simps [simp del]

lemma download_loop_stuck:
  assumes "\<forall>k. count_str (download k) < n"
    and "num_tries st < m" and "num_downloaded_files st < n"
  shows "download_loop fuel download m n st = None"
  using assms
proof (induction fuel arbitrary: st)
  case 0
  then show ?case by (simp add: download_loop.simps)
next
  case (Suc fuel)
  let ?st = "st\<lparr>files := Some (download (calls st)),
               num_downloaded_files := count_str (download (calls st)),
               calls := Suc (calls st)\<rparr>"
  have "download_loop fuel download m n ?st = None"
    using Suc.prems by (intro Suc.IH) simp_all
  with Suc.prems show ?case
    by (subst download_loop.simps) simp
qed

text \<open>
  C1: the specification bounds the retry loop by three invocations.  In the code
  \<open>num_tries\<close> is never incremented, so the bound \<open>num_tries < max_num_tries\<close> never
  becomes false: when every attempt returns fewer path-valued entries than granules were
  requested, no amount of fuel lets \<^verbatim>\<open>_earthaccess_download\<close> return.
\<close>

theorem earthaccess_download_unbounded:
  assumes "\<forall>k. count_str (download k granule_list tmp_dir) < length granule_list"
  shows "earthaccess_download fuel download granule_list tmp_dir = None"
proof -
  have "0 < length granule_list"
    using assms by (metis less_nat_zero_code neq0_conv)
  then show ?thesis
    using assms
    by (simp add: earthaccess_download_def
        download_loop_stuck [where download = "\<lambda>k. download k granule_list tmp_dir"])
qed

theorem earthaccess_download_unbounded_witness:
  "(\<forall>k. count_str ((\<lambda>k gl d. [Failure]) k [\<lparr>data_links = [''s3://b/g001.nc'']\<rparr>] ''tmp'')
        < length [\<lparr>data_links = [''s3://b/g001.nc'']\<rparr>])
   \<and> earthaccess_download 1000 (\<lambda>k gl d. [Failure]) [\<lparr>data_links = [''s3://b/g001.nc'']\<rparr>] ''tmp''
       = None"
  using earthaccess_download_unbounded
    [of "\<lambda>k gl d. [Failure]" "[\<lparr>data_links = [''s3://b/g001.nc'']\<rparr>]" "''tmp''" 1000]
  by (simp add: count_str_def)

text \<open>
  The same defect on a transfer that succeeds at the fourth attempt: the wrapper invokes
  the download four times and returns the path, where the specification allows three
  invocations.
\<close>

lemma earthaccess_download_fourth_call:
  "earthaccess_download 4 (\<lambda>k gl d. if k < 3 then [Failure] else [Path ''g001.nc''])
     [\<lparr>data_links = [''s3://b/g001.nc'']\<rparr>] ''tmp''
   = Some (Inr [''tmp/g001.nc''], 4)"
  by (simp add: earthaccess_download_def download_loop.simps count_str_def os_path_join_def
      and_then_def)

text \<open>
  The early stop does hold: when the first attempt returns a path for every granule, the
  download is invoked once.
\<close>

lemma earthaccess_download_first_attempt:
  assumes "granule_list \<noteq> []"
    and "length granule_list \<le> count_str (download 0 granule_list tmp_dir)"
  shows "\<exists>r. earthaccess_download (Suc fuel) download granule_list tmp_dir = Some (r, 1)"
  using assms
  by (simp add: earthaccess_download_def download_loop.simps)

section \<open>Properties of the granule loader\<close>

lemmas prog_defs = then_do_def py_return_def py_raise_def lift_def log_event_def
  read_array_def new_array_def read_names_def new_names_def write_names_def
  read_sizes_def new_sizes_def write_sizes_def

lemma dimension_size_not_OSError: "dimension_size nc v dim \<noteq> Inl (OSError m)"
  by (auto simp: dimension_size_def and_then_def dict_get_def py_index_def Let_def
      split: option.splits sum.splits)

lemma load_dimensions_quiet:
  "fst (load_dimensions nc v n z ds w) \<noteq> Inl (OSError m)
   \<and> trace (snd (load_dimensions nc v n z ds w)) = trace w"
proof (induction ds arbitrary: w)
  case Nil
  then show ?case by (simp add: prog_defs)
next
  case (Cons dim rest)
  show ?case
    using dimension_size_not_OSError [of nc v dim m]
    by (auto simp: prog_defs Cons.IH split: sum.splits prod.splits)
qed

lemma nc_getitem_not_OSError: "nc_getitem nc v \<noteq> Inl (OSError m)"
  by (simp add: nc_getitem_def split: option.splits)

lemma load_variables_quiet:
  "fst (load_variables nc vs dat dims attrs w) \<noteq> Inl (OSError m)
   \<and> trace (snd (load_variables nc vs dat dims attrs w)) = trace w"
proof (induction vs arbitrary: dat dims attrs w)
  case Nil
  then show ?case by (simp add: prog_defs)
next
  case (Cons v rest)
  show ?case
  proof (cases "nc_getitem nc v")
    case (Inl e)
    with nc_getitem_not_OSError [of nc v m] show ?thesis
      by (simp add: prog_defs)
  next
    case (Inr var)
    let ?w3 = "w\<lparr>arrays := arrays w @ [var_data var],
                 name_lists := name_lists w @ [[]],
                 size_lists := size_lists w @ [[]]\<rparr>"
    let ?n = "length (name_lists w)" and ?z = "length (size_lists w)"
    have q: "fst (load_dimensions nc v ?n ?z (var_dimensions var) ?w3) \<noteq> Inl (OSError m)
        \<and> trace (snd (load_dimensions nc v ?n ?z (var_dimensions var) ?w3)) = trace ?w3"
      by (rule load_dimensions_quiet)
    obtain r w4 where ld: "load_dimensions nc v ?n ?z (var_dimensions var) ?w3 = (r, w4)"
      by (cases "load_dimensions nc v ?n ?z (var_dimensions var) ?w3")
    with q have r: "r \<noteq> Inl (OSError m)" and t: "trace w4 = trace w" by simp_all
    show ?thesis
    proof (cases r)
      case (Inl e)
      with Inr ld r t show ?thesis by (simp add: prog_defs)
    next
      case (Inr u)
      with \<open>nc_getitem nc v = Inr var\<close> ld t Cons.IH show ?thesis by (simp add: prog_defs)
    qed
  qed
qed

text \<open>
  C9: when the remote read returns a payload, \<^verbatim>\<open>load_granule_from_s3\<close> raises the
  transport error \<^verbatim>\<open>OSError('s3 read failed to return any data')\<close> exactly when the
  payload is empty (the netCDF4 reader not raising that very error itself).  In that case
  the world is left as it was but for the one logged read: nothing is parsed.  In every
  case the log gains exactly one read, so the loader does not retry it.
\<close>

theorem load_granule_from_s3_transport_error:
  assumes "read_result s3 = Inr nc_bytes"
    and "dataset_of_bytes nc_bytes \<noteq> Inl (OSError s3_read_failed)"
  shows "(fst (load_granule_from_s3 dataset_of_bytes s3 var_list w) = Inl (OSError s3_read_failed)
            \<longleftrightarrow> nc_bytes = [])
       \<and> (nc_bytes = [] \<longrightarrow>
            snd (load_granule_from_s3 dataset_of_bytes s3 var_list w)
              = w\<lparr>trace := trace w @ [EvRead (s3_name s3)]\<rparr>)
       \<and> trace (snd (load_granule_from_s3 dataset_of_bytes s3 var_list w))
            = trace w @ (if nc_bytes = [] then [EvRead (s3_name s3)]
                         else [EvRead (s3_name s3), EvDatasetMemory])"
proof (cases "nc_bytes = []")
  case True
  with assms show ?thesis
    by (simp add: load_granule_from_s3_def prog_defs)
next
  case False
  let ?w2 = "w\<lparr>trace := trace w @ [EvRead (s3_name s3), EvDatasetMemory]\<rparr>"
  show ?thesis
  proof (cases "dataset_of_bytes nc_bytes")
    case (Inl e)
    with assms False show ?thesis
      by (simp add: load_granule_from_s3_def prog_defs)
  next
    case (Inr nc)
    have run: "load_granule_from_s3 dataset_of_bytes s3 var_list w
                 = load_variables nc var_list [] [] [] ?w2"
      using assms False Inr
      by (simp add: load_granule_from_s3_def load_from_netCDF4_def prog_defs)
    have "fst (load_variables nc var_list [] [] [] ?w2) \<noteq> Inl (OSError s3_read_failed)
        \<and> trace (snd (load_variables nc var_list [] [] [] ?w2)) = trace ?w2"
      by (rule load_variables_quiet)
    with run False show ?thesis by simp
  qed
qed

theorem load_granule_from_s3_transport_error_witness:
  "fst (load_granule_from_s3 (\<lambda>b. Inl (External ''NetCDF: Unknown file format''))
          \<lparr>s3_name = ''g001'', read_result = Inr []\<rparr> [''lat''] empty_world)
     = Inl (OSError s3_read_failed)
   \<and> trace (snd (load_granule_from_s3 (\<lambda>b. Inl (External ''NetCDF: Unknown file format''))
          \<lparr>s3_name = ''g001'', read_result = Inr []\<rparr> [''lat''] empty_world))
     = [EvRead ''g001'']
   \<and> fst (load_granule_from_s3 (\<lambda>b. Inl (External ''NetCDF: Unknown file format''))
          \<lparr>s3_name = ''g002'', read_result = Inr ''CDF''\<rparr> [''lat''] empty_world)
     = Inl (External ''NetCDF: Unknown file format'')
   \<and> trace (snd (load_granule_from_s3 (\<lambda>b. Inl (External ''NetCDF: Unknown file format''))
          \<lparr>s3_name = ''g002'', read_result = Inr ''CDF''\<rparr> [''lat''] empty_world))
     = [EvRead ''g002'', EvDatasetMemory]"
  using load_granule_from_s3_transport_error
    [of "\<lparr>s3_name = ''g001'', read_result = Inr []\<rparr>" "[]"
        "\<lambda>b. Inl (External ''NetCDF: Unknown file format'')" "[''lat'']" empty_world]
    load_granule_from_s3_transport_error
    [of "\<lparr>s3_name = ''g002'', read_result = Inr ''CDF''\<rparr>" "''CDF''"
        "\<lambda>b. Inl (External ''NetCDF: Unknown file format'')" "[''lat'']" empty_world]
  by (simp add: empty_world_def load_granule_from_s3_def prog_defs)

section \<open>Properties of the writer\<close>

lemma same_store_refl: "same_store w w"
  by (simp add: same_store_def)

lemma same_store_trans: "same_store w w' \<Longrightarrow> same_store w' w'' \<Longrightarrow> same_store w w''"
  by (simp add: same_store_def)

lemma calls_on_update: "calls_on (w\<lparr>written := AList.update fname cs (written w)\<rparr>) fname = cs"
  by (simp add: calls_on_def update_conv')

lemma calls_on_opened: "calls_on (opened fname w) fname = []"
  by (simp add: calls_on_def opened_def update_conv')

lemma then_do_Inl: "m w = (Inl e, w') \<Longrightarrow> then_do m f w = (Inl e, w')"
  by (simp add: then_do_def)

lemma then_do_Inr: "m w = (Inr x, w') \<Longrightarrow> then_do m f w = f x w'"
  by (simp add: then_do_def)

lemma nc_do_cases:
  "(\<exists>e. call_error lib (calls_on w fname) c = Some e \<and> nc_do lib fname c w = (Inl e, w))
   \<or> (\<exists>w'. nc_do lib fname c w = (Inr (), w') \<and> same_store w w'
          \<and> calls_on w' fname = calls_on w fname @ [c])"
  by (cases "call_error lib (calls_on w fname) c")
     (simp_all add: nc_do_def same_store_def calls_on_update)

lemma do_calls_effect:
  "\<exists>r w' made. do_calls lib fname cs w = (r, w') \<and> same_store w w'
      \<and> calls_on w' fname = calls_on w fname @ made \<and> set made \<subseteq> set cs
      \<and> (r = Inr () \<longrightarrow> made = cs)
      \<and> (\<forall>e. r = Inl e \<longrightarrow> (\<exists>k c. call_error lib k c = Some e))"
proof (induction cs arbitrary: w)
  case Nil
  then show ?case by (simp add: py_return_def same_store_refl)
next
  case (Cons c cs)
  from nc_do_cases [of lib w fname c] show ?case
  proof
    assume "\<exists>e. call_error lib (calls_on w fname) c = Some e
                \<and> nc_do lib fname c w = (Inl e, w)"
    then obtain e where e: "call_error lib (calls_on w fname) c = Some e"
      and run: "nc_do lib fname c w = (Inl e, w)"
      by blast
    from run have "do_calls lib fname (c # cs) w = (Inl e, w)"
      by (simp add: then_do_Inl)
    with e show ?thesis
      by (intro exI [of _ "Inl e"] exI [of _ w] exI [of _ "[]"])
         (auto simp: same_store_refl)
  next
    assume "\<exists>w'. nc_do lib fname c w = (Inr (), w') \<and> same_store w w'
              \<and> calls_on w' fname = calls_on w fname @ [c]"
    then obtain w1 where run: "nc_do lib fname c w = (Inr (), w1)"
      and s1: "same_store w w1" and c1: "calls_on w1 fname = calls_on w fname @ [c]"
      by blast
    from Cons.IH [of w1] obtain r w2 made where
      2: "do_calls lib fname cs w1 = (r, w2)" and s2: "same_store w1 w2"
      and c2: "calls_on w2 fname = calls_on w1 fname @ made" and sub: "set made \<subseteq> set cs"
      and ok: "r = Inr () \<longrightarrow> made = cs"
      and err: "\<forall>e. r = Inl e \<longrightarrow> (\<exists>k c. call_error lib k c = Some e)"
      by blast
    from run 2 have "do_calls lib fname (c # cs) w = (r, w2)"
      by (simp add: then_do_Inr)
    moreover from s1 s2 have "same_store w w2" by (rule same_store_trans)
    moreover from c1 c2 have "calls_on w2 fname = calls_on w fname @ (c # made)" by simp
    moreover from sub have "set (c # made) \<subseteq> set (c # cs)" by auto
    moreover from ok have "r = Inr () \<longrightarrow> c # made = c # cs" by simp
    ultimately show ?thesis using err by blast
  qed
qed

lemma do_calls_store:
  assumes "do_calls lib fname cs w = (r, w')"
  shows "arrays w' = arrays w \<and> name_lists w' = name_lists w"
  using do_calls_effect [of lib fname cs w] assms by (auto simp: same_store_def)

lemma do_calls_append:
  "do_calls lib fname (xs @ ys) w
     = then_do (do_calls lib fname xs) (\<lambda>u. do_calls lib fname ys) w"
proof (induction xs arbitrary: w)
  case Nil
  then show ?case by (simp add: then_do_def py_return_def)
next
  case (Cons x xs)
  then show ?case by (simp add: then_do_def split: prod.splits sum.splits)
qed

lemma write_attrs_do_calls:
  "write_attrs lib fname v av = do_calls lib fname (attr_calls v av)"
  by (induction lib fname v av rule: write_attrs.induct) (simp_all add: attr_calls_def)

lemma create_dimensions_do_calls:
  "create_dimensions lib fname m = do_calls lib fname (dimension_calls m)"
  by (induction lib fname m rule: create_dimensions.induct) (simp_all add: dimension_calls_def)

lemma write_variables_raises:
  assumes "variable_block lib (arrays w) (name_lists w) dims attrs v a = Inl e"
  shows "write_variables lib fname ((v, a) # rest) dims attrs w = (Inl e, w)"
  using assms
  by (auto simp: variable_block_def and_then_def then_do_def lift_def py_return_def
      read_array_def read_names_def split: sum.splits if_splits)

lemma write_variables_step:
  assumes "variable_block lib (arrays w) (name_lists w) dims attrs v a = Inr cs"
  shows "write_variables lib fname ((v, a) # rest) dims attrs w
           = then_do (do_calls lib fname cs)
               (\<lambda>u. write_variables lib fname rest dims attrs) w"
proof -
  from assms obtain av x out_type d ns where
    av: "dict_get attrs v = Inr av" and a: "a < length (arrays w)" and x: "x = arrays w ! a"
    and t: "output_dtype lib x = Inr out_type" and d: "dict_get dims v = Inr d"
    and n: "names d < length (name_lists w)" and ns: "ns = name_lists w ! names d"
    and cs: "cs = CreateVariable v out_type ns ''zlib'' 1 (map_of av ''_FillValue'')
                   # AssignData v x # attr_calls v av"
    by (auto simp: variable_block_def and_then_def split: sum.splits if_splits)
  have "write_variables lib fname ((v, a) # rest) dims attrs w
          = then_do (nc_do lib fname
                       (CreateVariable v out_type ns ''zlib'' 1 (map_of av ''_FillValue'')))
              (\<lambda>u. then_do (nc_do lib fname (AssignData v x))
                (\<lambda>u. then_do (do_calls lib fname (attr_calls v av))
                  (\<lambda>u. write_variables lib fname rest dims attrs))) w"
    using av a x t d n ns
    by (simp add: then_do_def lift_def py_return_def read_array_def read_names_def
        write_attrs_do_calls)
  also have "\<dots> = then_do (do_calls lib fname cs)
               (\<lambda>u. write_variables lib fname rest dims attrs) w"
    unfolding cs by (simp add: then_do_def split: prod.splits sum.splits)
  finally show ?thesis .
qed

lemma write_variables_plan:
  "write_variables lib fname vars dims attrs w
     = then_do (do_calls lib fname (snd (write_plan lib (arrays w) (name_lists w) dims attrs vars)))
         (\<lambda>u. lift (fst (write_plan lib (arrays w) (name_lists w) dims attrs vars))) w"
proof (induction vars arbitrary: w)
  case Nil
  then show ?case by (simp add: then_do_def py_return_def lift_def)
next
  case (Cons p rest)
  obtain v a where p: "p = (v, a)" by (cases p)
  let ?P = "write_plan lib (arrays w) (name_lists w) dims attrs rest"
  show ?case
  proof (cases "variable_block lib (arrays w) (name_lists w) dims attrs v a")
    case (Inl e)
    with p write_variables_raises [OF Inl] show ?thesis
      by (simp add: then_do_def py_return_def lift_def)
  next
    case (Inr cs)
    obtain r w1 where 1: "do_calls lib fname cs w = (r, w1)"
      by (cases "do_calls lib fname cs w")
    from do_calls_store [OF 1] have eq: "arrays w1 = arrays w" "name_lists w1 = name_lists w"
      by simp_all
    have plan: "write_plan lib (arrays w) (name_lists w) dims attrs (p # rest)
                  = (fst ?P, cs @ snd ?P)"
      using p Inr by simp
    show ?thesis
    proof (cases r)
      case (Inl e)
      with 1 p write_variables_step [OF Inr] plan show ?thesis
        by (simp add: do_calls_append then_do_def)
    next
      case (Inr u)
      have "write_variables lib fname (p # rest) dims attrs w
              = write_variables lib fname rest dims attrs w1"
        using 1 Inr p write_variables_step [OF \<open>variable_block lib _ _ _ _ _ _ = Inr cs\<close>]
        by (simp add: then_do_def)
      also have "\<dots> = then_do (do_calls lib fname (snd ?P)) (\<lambda>u. lift (fst ?P)) w1"
        using Cons.IH [of w1] eq by simp
      also have "\<dots> = then_do (do_calls lib fname (cs @ snd ?P)) (\<lambda>u. lift (fst ?P)) w"
        using 1 Inr by (simp add: do_calls_append then_do_def)
      finally show ?thesis using plan by simp
    qed
  qed
qed

lemma merge_dims_reads:
  "valid_dims w dims \<Longrightarrow> \<exists>m. merge_dims dims acc w = (Inr m, w)"
proof (induction dims arbitrary: acc)
  case Nil
  then show ?case by (simp add: py_return_def)
next
  case (Cons p rest)
  obtain v d where p: "p = (v, d)" by (cases p)
  from Cons.prems p have "names d < length (name_lists w)" "sizes d < length (size_lists w)"
    and "valid_dims w rest"
    by (simp_all add: valid_dims_def)
  with Cons.IH p show ?case
    by (simp add: then_do_def read_names_def read_sizes_def)
qed

lemma write_cdat_plan:
  assumes "merge_dims dims [] w = (Inr m, w)" and "open_error lib fname = None"
  shows "write_cdat lib cdat dims attrs fname w
           = then_do (do_calls lib fname
                        (dimension_calls m
                         @ snd (write_plan lib (arrays w) (name_lists w) dims attrs cdat)))
               (\<lambda>u. lift (fst (write_plan lib (arrays w) (name_lists w) dims attrs cdat)))
               (opened fname w)"
proof -
  let ?P = "write_plan lib (arrays w) (name_lists w) dims attrs cdat"
  obtain r w2 where 2: "do_calls lib fname (dimension_calls m) (opened fname w) = (r, w2)"
    by (cases "do_calls lib fname (dimension_calls m) (opened fname w)")
  from do_calls_store [OF 2] have eq: "arrays w2 = arrays w" "name_lists w2 = name_lists w"
    by (simp_all add: opened_def)
  have start: "write_cdat lib cdat dims attrs fname w
                 = then_do (do_calls lib fname (dimension_calls m))
                     (\<lambda>u. write_variables lib fname cdat dims attrs) (opened fname w)"
    using assms
    by (simp add: write_cdat_def then_do_def open_for_write_def opened_def
        create_dimensions_do_calls)
  show ?thesis
  proof (cases r)
    case (Inl e)
    with 2 start show ?thesis by (simp add: do_calls_append then_do_def)
  next
    case (Inr u)
    with 2 start have "write_cdat lib cdat dims attrs fname w
                         = write_variables lib fname cdat dims attrs w2"
      by (simp add: then_do_def)
    also have "\<dots> = then_do (do_calls lib fname (snd ?P)) (\<lambda>u. lift (fst ?P)) w2"
      using write_variables_plan [of lib fname cdat dims attrs w2] eq by simp
    also have "\<dots> = then_do (do_calls lib fname (dimension_calls m @ snd ?P))
                       (\<lambda>u. lift (fst ?P)) (opened fname w)"
      using 2 Inr by (simp add: do_calls_append then_do_def)
    finally show ?thesis .
  qed
qed

lemma write_cdat_effect:
  assumes "valid_dims w dims" and "open_error lib fname = None"
  shows "\<exists>m r w'. write_cdat lib cdat dims attrs fname w = (r, w')
           \<and> arrays w' = arrays w \<and> name_lists w' = name_lists w
           \<and> size_lists w' = size_lists w
           \<and> trace w' = trace w @ [EvDatasetWrite fname]
           \<and> readable w' = insert fname (readable w)
           \<and> set (calls_on w' fname)
               \<subseteq> set (dimension_calls m)
                 \<union> set (snd (write_plan lib (arrays w) (name_lists w) dims attrs cdat))
           \<and> (r = Inr () \<longrightarrow>
                 fst (write_plan lib (arrays w) (name_lists w) dims attrs cdat) = Inr ()
                 \<and> set (snd (write_plan lib (arrays w) (name_lists w) dims attrs cdat))
                     \<subseteq> set (calls_on w' fname))
           \<and> (\<forall>e. r = Inl e \<longrightarrow>
                 fst (write_plan lib (arrays w) (name_lists w) dims attrs cdat) = Inl e
                 \<or> (\<exists>k c. call_error lib k c = Some e))"
proof -
  let ?P = "write_plan lib (arrays w) (name_lists w) dims attrs cdat"
  obtain m where m: "merge_dims dims [] w = (Inr m, w)"
    using merge_dims_reads [OF assms(1)] by blast
  from do_calls_effect [of lib fname "dimension_calls m @ snd ?P" "opened fname w"]
  obtain r w1 made where
    1: "do_calls lib fname (dimension_calls m @ snd ?P) (opened fname w) = (r, w1)"
    and s: "same_store (opened fname w) w1"
    and c: "calls_on w1 fname = made" and sub: "set made \<subseteq> set (dimension_calls m @ snd ?P)"
    and ok: "r = Inr () \<longrightarrow> made = dimension_calls m @ snd ?P"
    and err: "\<forall>e. r = Inl e \<longrightarrow> (\<exists>k c. call_error lib k c = Some e)"
    by (auto simp: calls_on_opened)
  from s have store: "arrays w1 = arrays w" "name_lists w1 = name_lists w"
    "size_lists w1 = size_lists w" "trace w1 = trace w @ [EvDatasetWrite fname]"
    "readable w1 = insert fname (readable w)"
    by (simp_all add: same_store_def opened_def)
  show ?thesis
  proof (cases r)
    case (Inl e)
    with 1 write_cdat_plan [OF m assms(2), of cdat attrs]
    have "write_cdat lib cdat dims attrs fname w = (Inl e, w1)"
      by (simp add: then_do_def)
    with store c sub err Inl show ?thesis
      by (intro exI [of _ m] exI [of _ "Inl e"] exI [of _ w1]) auto
  next
    case (Inr u)
    with 1 write_cdat_plan [OF m assms(2), of cdat attrs]
    have run: "write_cdat lib cdat dims attrs fname w = (fst ?P, w1)"
      by (simp add: then_do_def lift_def)
    from Inr ok have made: "made = dimension_calls m @ snd ?P" by simp
    from run store c made show ?thesis
      by (intro exI [of _ m] exI [of _ "fst ?P"] exI [of _ w1]) auto
  qed
qed

lemma first_element_never:
  assumes "never_raises lib (ValueError m)"
  shows "first_element lib x \<noteq> Inl (ValueError m)"
proof (cases "mask x")
  case None
  then show ?thesis by (cases "flat x") (simp_all add: first_element_def py_index_def)
next
  case (Some k)
  with assms show ?thesis by (simp add: first_element_def never_raises_def)
qed

lemma output_dtype_Inr:
  "output_dtype lib x = Inr t \<Longrightarrow>
     \<not> object_not_str lib x \<and> t = (if dtype x = DObject then NcStr else NcDtype (dtype x))"
  by (cases "first_element lib x")
     (auto simp: output_dtype_def object_not_str_def and_then_def split: if_splits)

lemma output_dtype_Inl:
  "output_dtype lib x = Inl e \<Longrightarrow>
     (dtype x = DObject \<and> first_element lib x = Inl e)
     \<or> (e = ValueError format_error \<and> object_not_str lib x)"
  by (cases "first_element lib x")
     (auto simp: output_dtype_def object_not_str_def and_then_def split: if_splits)

lemma output_dtype_refused:
  "object_not_str lib x \<Longrightarrow> output_dtype lib x = Inl (ValueError format_error)"
  by (cases "first_element lib x")
     (auto simp: output_dtype_def object_not_str_def and_then_def)

lemma variable_block_Inr:
  assumes "variable_block lib arrs nls dims attrs v a = Inr cs"
  shows "\<exists>av d. map_of attrs v = Some av \<and> a < length arrs \<and> map_of dims v = Some d
           \<and> names d < length nls
           \<and> \<not> object_not_str lib (arrs ! a)
           \<and> cs = CreateVariable v
                    (if dtype (arrs ! a) = DObject then NcStr else NcDtype (dtype (arrs ! a)))
                    (nls ! names d) ''zlib'' 1 (map_of av ''_FillValue'')
                  # AssignData v (arrs ! a) # attr_calls v av"
  using assms
  by (auto simp: variable_block_def and_then_def dict_get_def
      split: sum.splits if_splits option.splits dest: output_dtype_Inr)

lemma variable_block_ValueError:
  assumes "variable_block lib arrs nls dims attrs v a = Inl (ValueError format_error)"
    and "never_raises lib (ValueError format_error)"
  shows "map_of attrs v \<noteq> None \<and> a < length arrs \<and> object_not_str lib (arrs ! a)"
proof -
  from assms(1) have 1: "map_of attrs v \<noteq> None" and 2: "a < length arrs"
    by (auto simp: variable_block_def and_then_def dict_get_def
        split: sum.splits if_splits option.splits)
  with assms(1) have "output_dtype lib (arrs ! a) = Inl (ValueError format_error)"
    by (auto simp: variable_block_def and_then_def dict_get_def
        split: sum.splits if_splits option.splits)
  from output_dtype_Inl [OF this] first_element_never [OF assms(2)]
  have "object_not_str lib (arrs ! a)" by auto
  with 1 2 show ?thesis by simp
qed

lemma variable_block_refused:
  assumes "map_of attrs v \<noteq> None" and "a < length arrs" and "object_not_str lib (arrs ! a)"
  shows "variable_block lib arrs nls dims attrs v a = Inl (ValueError format_error)"
  using assms output_dtype_refused [OF assms(3)]
  by (auto simp: variable_block_def and_then_def dict_get_def)

lemma attr_calls_iff:
  "c \<in> set (attr_calls v av) \<longleftrightarrow>
     (\<exists>k y. c = SetNcAttr v k y \<and> (k, y) \<in> set av \<and> k \<noteq> ''_FillValue'')"
  by (auto simp: attr_calls_def)

lemma dimension_calls_iff:
  "c \<in> set (dimension_calls m) \<longleftrightarrow> (\<exists>dim k. c = CreateDimension dim k \<and> (dim, k) \<in> set m)"
  by (auto simp: dimension_calls_def)

lemma write_plan_calls:
  "c \<in> set (snd (write_plan lib arrs nls dims attrs vars)) \<Longrightarrow>
     \<exists>v a cs. (v, a) \<in> set vars \<and> variable_block lib arrs nls dims attrs v a = Inr cs
        \<and> c \<in> set cs"
proof (induction vars)
  case Nil
  then show ?case by simp
next
  case (Cons p rest)
  obtain v a where p: "p = (v, a)" by (cases p)
  show ?case
  proof (cases "variable_block lib arrs nls dims attrs v a")
    case (Inl e)
    with Cons.prems p show ?thesis by simp
  next
    case (Inr cs)
    with Cons.prems p have "c \<in> set cs \<or> c \<in> set (snd (write_plan lib arrs nls dims attrs rest))"
      by simp
    then show ?thesis
    proof
      assume "c \<in> set cs"
      with Inr p show ?thesis by (intro exI [of _ v] exI [of _ a] exI [of _ cs]) simp
    next
      assume "c \<in> set (snd (write_plan lib arrs nls dims attrs rest))"
      from Cons.IH [OF this] obtain v' a' cs' where
        "(v', a') \<in> set rest" "variable_block lib arrs nls dims attrs v' a' = Inr cs'"
        "c \<in> set cs'"
        by blast
      then show ?thesis
        by (intro exI [of _ v'] exI [of _ a'] exI [of _ cs']) auto
    qed
  qed
qed

lemma write_plan_complete:
  "fst (write_plan lib arrs nls dims attrs vars) = Inr () \<Longrightarrow> (v, a) \<in> set vars \<Longrightarrow>
     \<exists>cs. variable_block lib arrs nls dims attrs v a = Inr cs
        \<and> set cs \<subseteq> set (snd (write_plan lib arrs nls dims attrs vars))"
proof (induction vars)
  case Nil
  then show ?case by simp
next
  case (Cons p rest)
  obtain v' a' where p: "p = (v', a')" by (cases p)
  from Cons.prems p obtain cs' where b: "variable_block lib arrs nls dims attrs v' a' = Inr cs'"
    by (cases "variable_block lib arrs nls dims attrs v' a'") auto
  with Cons.prems p have r: "fst (write_plan lib arrs nls dims attrs rest) = Inr ()" by simp
  from Cons.prems p have "(v, a) = (v', a') \<or> (v, a) \<in> set rest" by auto
  then show ?case
  proof
    assume "(v, a) = (v', a')"
    with b p show ?thesis by auto
  next
    assume "(v, a) \<in> set rest"
    from Cons.IH [OF r this] b p show ?thesis by auto
  qed
qed

lemma write_plan_append:
  "fst (write_plan lib arrs nls dims attrs xs) = Inr () \<Longrightarrow>
     write_plan lib arrs nls dims attrs (xs @ ys)
       = (fst (write_plan lib arrs nls dims attrs ys),
          snd (write_plan lib arrs nls dims attrs xs) @ snd (write_plan lib arrs nls dims attrs ys))"
proof (induction xs)
  case Nil
  then show ?case by simp
next
  case (Cons p rest)
  obtain v a where p: "p = (v, a)" by (cases p)
  from Cons.prems p obtain cs where b: "variable_block lib arrs nls dims attrs v a = Inr cs"
    by (cases "variable_block lib arrs nls dims attrs v a") auto
  with Cons.prems p have "fst (write_plan lib arrs nls dims attrs rest) = Inr ()" by simp
  from Cons.IH [OF this] b p show ?case by simp
qed

lemma write_plan_split:
  "fst (write_plan lib arrs nls dims attrs vars) = Inl e \<Longrightarrow>
     \<exists>pre v a post. vars = pre @ (v, a) # post
        \<and> fst (write_plan lib arrs nls dims attrs pre) = Inr ()
        \<and> variable_block lib arrs nls dims attrs v a = Inl e
        \<and> snd (write_plan lib arrs nls dims attrs vars) = snd (write_plan lib arrs nls dims attrs pre)"
proof (induction vars)
  case Nil
  then show ?case by simp
next
  case (Cons p rest)
  obtain v a where p: "p = (v, a)" by (cases p)
  show ?case
  proof (cases "variable_block lib arrs nls dims attrs v a")
    case (Inl e')
    with Cons.prems p have "[] @ (v, a) # rest = p # rest
        \<and> fst (write_plan lib arrs nls dims attrs []) = Inr ()
        \<and> variable_block lib arrs nls dims attrs v a = Inl e
        \<and> snd (write_plan lib arrs nls dims attrs (p # rest))
            = snd (write_plan lib arrs nls dims attrs [])"
      by simp
    then show ?thesis by metis
  next
    case (Inr cs)
    with Cons.prems p have "fst (write_plan lib arrs nls dims attrs rest) = Inl e" by simp
    from Cons.IH [OF this] obtain pre v' a' post where
      r: "rest = pre @ (v', a') # post"
      and ok: "fst (write_plan lib arrs nls dims attrs pre) = Inr ()"
      and b: "variable_block lib arrs nls dims attrs v' a' = Inl e"
      and s: "snd (write_plan lib arrs nls dims attrs rest) = snd (write_plan lib arrs nls dims attrs pre)"
      by blast
    from r ok b s Inr p have "p # rest = (p # pre) @ (v', a') # post
        \<and> fst (write_plan lib arrs nls dims attrs (p # pre)) = Inr ()
        \<and> variable_block lib arrs nls dims attrs v' a' = Inl e
        \<and> snd (write_plan lib arrs nls dims attrs (p # rest))
            = snd (write_plan lib arrs nls dims attrs (p # pre))"
      by simp
    then show ?thesis by blast
  qed
qed

lemma write_plan_origin:
  assumes "distinct (map fst vars)" and "(v, a) \<in> set vars"
    and "c \<in> set (snd (write_plan lib arrs nls dims attrs vars))"
    and "(\<exists>t ns z l fv. c = CreateVariable v t ns z l fv) \<or> (\<exists>x. c = AssignData v x)"
  shows "\<not> object_not_str lib (arrs ! a)
       \<and> (\<forall>t ns z l fv. c = CreateVariable v t ns z l fv \<longrightarrow>
             t = (if dtype (arrs ! a) = DObject then NcStr else NcDtype (dtype (arrs ! a))))"
proof -
  from write_plan_calls [OF assms(3)] obtain v' a' cs where
    m: "(v', a') \<in> set vars" and b: "variable_block lib arrs nls dims attrs v' a' = Inr cs"
    and c: "c \<in> set cs"
    by blast
  from variable_block_Inr [OF b] obtain ns fv av where
    ok: "\<not> object_not_str lib (arrs ! a')"
    and cs: "cs = CreateVariable v'
                    (if dtype (arrs ! a') = DObject then NcStr else NcDtype (dtype (arrs ! a')))
                    ns ''zlib'' 1 fv
                  # AssignData v' (arrs ! a') # attr_calls v' av"
    by blast
  from c cs assms(4) have "v' = v"
    by (auto simp: attr_calls_iff)
  with m assms(1,2) have "a' = a"
    by (auto dest: eq_key_imp_eq_value)
  with ok c cs \<open>v' = v\<close> show ?thesis
    by (auto simp: attr_calls_iff)
qed


text \<open>
  C7, the claim as worded: a run of \<^verbatim>\<open>write_cdat\<close> on a \<open>cdat\<close> that holds an array of element
  type \<^verbatim>\<open>object\<close> whose first element is an integer (\<^verbatim>\<open>flag\<close>) does not raise the format
  error: the loop first meets \<^verbatim>\<open>empty\<close>, an array of element type \<^verbatim>\<open>object\<close> without
  elements, on which \<^verbatim>\<open>cdat[v].flat[0]\<close> raises IndexError.
\<close>

theorem write_cdat_format_error_counterexample:
  "object_not_str accepts_all (arrays output_world ! 2)
   \<and> fst (write_cdat accepts_all [(''empty'', 3), (''flag'', 2)] refused_dims refused_attrs
            ''out.nc'' output_world) = Inl IndexError"
  by (simp add: object_not_str_def first_element_def output_world_def write_cdat_def
      refused_dims_def
      refused_attrs_def accepts_all_def then_do_def py_return_def lift_def and_then_def
      read_array_def read_names_def read_sizes_def nc_do_def open_for_write_def calls_on_def
      dict_get_def output_dtype_def py_index_def)

text \<open>
  C7, amended: when the output file can be opened and the libraries do not themselves
  raise the format error, \<^verbatim>\<open>write_cdat\<close> raises the format error exactly when the variable
  loop reaches a variable whose array has element type \<^verbatim>\<open>object\<close> and a first element that
  is not a \<^verbatim>\<open>str\<close>, that is, when the passes over the variables before it complete and
  the variable has an entry in \<open>attrs\<close>.  In every run, a variable with such an array is
  neither created nor assigned in the output, and every variable that is created gets the
  string type when its array has element type \<^verbatim>\<open>object\<close> and the array's own element type
  otherwise; a completed run has created every variable with that type.
\<close>

theorem write_cdat_format_error:
  assumes "distinct (map fst cdat)" and "valid_dims w dims"
    and "open_error lib fname = None" and "never_raises lib (ValueError format_error)"
  shows "(fst (write_cdat lib cdat dims attrs fname w) = Inl (ValueError format_error)
            \<longleftrightarrow> (\<exists>pre v a post. cdat = pre @ (v, a) # post
                   \<and> fst (write_cdat lib pre dims attrs fname w) = Inr ()
                   \<and> map_of attrs v \<noteq> None \<and> a < length (arrays w)
                   \<and> object_not_str lib (arrays w ! a)))
       \<and> (\<forall>(v, a) \<in> set cdat. object_not_str lib (arrays w ! a) \<longrightarrow>
            (\<forall>t ns z l fv. CreateVariable v t ns z l fv
               \<notin> set (calls_on (snd (write_cdat lib cdat dims attrs fname w)) fname))
            \<and> (\<forall>x. AssignData v x
               \<notin> set (calls_on (snd (write_cdat lib cdat dims attrs fname w)) fname)))
       \<and> (\<forall>(v, a) \<in> set cdat. \<forall>t ns z l fv.
            CreateVariable v t ns z l fv
              \<in> set (calls_on (snd (write_cdat lib cdat dims attrs fname w)) fname) \<longrightarrow>
            t = (if dtype (arrays w ! a) = DObject then NcStr
                 else NcDtype (dtype (arrays w ! a))))
       \<and> (fst (write_cdat lib cdat dims attrs fname w) = Inr () \<longrightarrow>
            (\<forall>(v, a) \<in> set cdat. \<exists>ns fv.
               CreateVariable v
                 (if dtype (arrays w ! a) = DObject then NcStr
                  else NcDtype (dtype (arrays w ! a))) ns ''zlib'' 1 fv
                 \<in> set (calls_on (snd (write_cdat lib cdat dims attrs fname w)) fname)))"
proof -
  let ?plan = "write_plan lib (arrays w) (name_lists w) dims attrs"
  let ?res = "write_cdat lib cdat dims attrs fname w"
  let ?log = "calls_on (snd ?res) fname"
  let ?fmt = "ValueError format_error"
  obtain m where m: "merge_dims dims [] w = (Inr m, w)"
    using merge_dims_reads [OF assms(2)] by blast
  note eqn = write_cdat_plan [OF m assms(3)]
  from write_cdat_effect [OF assms(2,3), of cdat attrs] obtain m' where
    sub: "set ?log \<subseteq> set (dimension_calls m') \<union> set (snd (?plan cdat))"
    and ok: "fst ?res = Inr () \<longrightarrow> fst (?plan cdat) = Inr () \<and> set (snd (?plan cdat)) \<subseteq> set ?log"
    by (metis fst_conv snd_conv)
  have 1: "fst ?res = Inl ?fmt
            \<longleftrightarrow> (\<exists>pre v a post. cdat = pre @ (v, a) # post
                   \<and> fst (write_cdat lib pre dims attrs fname w) = Inr ()
                   \<and> map_of attrs v \<noteq> None \<and> a < length (arrays w)
                   \<and> object_not_str lib (arrays w ! a))"
  proof
    assume L: "fst ?res = Inl ?fmt"
    obtain r w1 where
      d: "do_calls lib fname (dimension_calls m @ snd (?plan cdat)) (opened fname w) = (r, w1)"
      by (cases "do_calls lib fname (dimension_calls m @ snd (?plan cdat)) (opened fname w)")
    have r: "r = Inr ()"
    proof (cases r)
      case (Inl e)
      with d eqn [of cdat attrs] L have "e = ?fmt" by (simp add: then_do_def)
      moreover from do_calls_effect
        [of lib fname "dimension_calls m @ snd (?plan cdat)" "opened fname w"] d Inl
      have "\<exists>k c. call_error lib k c = Some e" by auto
      ultimately show ?thesis using assms(4) by (auto simp: never_raises_def)
    next
      case (Inr u)
      then show ?thesis by simp
    qed
    with d eqn [of cdat attrs] L have "fst (?plan cdat) = Inl ?fmt"
      by (simp add: then_do_def lift_def)
    from write_plan_split [OF this] obtain pre v a post where
      c: "cdat = pre @ (v, a) # post" and p: "fst (?plan pre) = Inr ()"
      and b: "variable_block lib (arrays w) (name_lists w) dims attrs v a = Inl ?fmt"
      and s: "snd (?plan cdat) = snd (?plan pre)"
      by blast
    from d r s p eqn [of pre attrs]
    have "fst (write_cdat lib pre dims attrs fname w) = Inr ()"
      by (simp add: then_do_def lift_def)
    with c variable_block_ValueError [OF b assms(4)]
    show "\<exists>pre v a post. cdat = pre @ (v, a) # post
            \<and> fst (write_cdat lib pre dims attrs fname w) = Inr ()
            \<and> map_of attrs v \<noteq> None \<and> a < length (arrays w)
            \<and> object_not_str lib (arrays w ! a)"
      by blast
  next
    assume "\<exists>pre v a post. cdat = pre @ (v, a) # post
            \<and> fst (write_cdat lib pre dims attrs fname w) = Inr ()
            \<and> map_of attrs v \<noteq> None \<and> a < length (arrays w)
            \<and> object_not_str lib (arrays w ! a)"
    then obtain pre v a post where
      c: "cdat = pre @ (v, a) # post"
      and p: "fst (write_cdat lib pre dims attrs fname w) = Inr ()"
      and wf: "map_of attrs v \<noteq> None" "a < length (arrays w)" "object_not_str lib (arrays w ! a)"
      by blast
    obtain r w1 where
      d: "do_calls lib fname (dimension_calls m @ snd (?plan pre)) (opened fname w) = (r, w1)"
      by (cases "do_calls lib fname (dimension_calls m @ snd (?plan pre)) (opened fname w)")
    from d p eqn [of pre attrs] have r: "r = Inr ()"
      by (cases r) (simp_all add: then_do_def)
    with d p eqn [of pre attrs] have pp: "fst (?plan pre) = Inr ()"
      by (simp add: then_do_def lift_def)
    from variable_block_refused [OF wf]
    have "?plan ((v, a) # post) = (Inl ?fmt, [])"
      by simp
    with write_plan_append [OF pp, of "(v, a) # post"] c
    have "?plan cdat = (Inl ?fmt, snd (?plan pre))"
      by simp
    with d r eqn [of cdat attrs] show "fst ?res = Inl ?fmt"
      by (simp add: then_do_def lift_def)
  qed
  have origin: "\<not> object_not_str lib (arrays w ! a)
       \<and> (\<forall>t ns z l fv. c = CreateVariable v t ns z l fv \<longrightarrow>
             t = (if dtype (arrays w ! a) = DObject then NcStr
                  else NcDtype (dtype (arrays w ! a))))"
    if "(v, a) \<in> set cdat" "c \<in> set ?log"
      "(\<exists>t ns z l fv. c = CreateVariable v t ns z l fv) \<or> (\<exists>x. c = AssignData v x)"
    for v a c
  proof -
    from that(2,3) sub have "c \<in> set (snd (?plan cdat))"
      by (auto simp: dimension_calls_iff)
    from write_plan_origin [OF assms(1) that(1) this that(3)] show ?thesis .
  qed
  have 2: "(\<forall>t ns z l fv. CreateVariable v t ns z l fv \<notin> set ?log)
            \<and> (\<forall>x. AssignData v x \<notin> set ?log)"
    if "(v, a) \<in> set cdat" "object_not_str lib (arrays w ! a)" for v a
    using that origin [OF that(1)] by blast
  have 3: "t = (if dtype (arrays w ! a) = DObject then NcStr
                else NcDtype (dtype (arrays w ! a)))"
    if "(v, a) \<in> set cdat" "CreateVariable v t ns z l fv \<in> set ?log" for v a t ns z l fv
    using origin [OF that] by blast
  have 4: "\<exists>ns fv. CreateVariable v
                 (if dtype (arrays w ! a) = DObject then NcStr
                  else NcDtype (dtype (arrays w ! a))) ns ''zlib'' 1 fv \<in> set ?log"
    if "fst ?res = Inr ()" "(v, a) \<in> set cdat" for v a
  proof -
    from that ok have p: "fst (?plan cdat) = Inr ()" and all: "set (snd (?plan cdat)) \<subseteq> set ?log"
      by simp_all
    from write_plan_complete [OF p that(2)] obtain cs where
      b: "variable_block lib (arrays w) (name_lists w) dims attrs v a = Inr cs"
      and sub: "set cs \<subseteq> set (snd (?plan cdat))"
      by blast
    from variable_block_Inr [OF b] obtain ns fv tail where
      "cs = CreateVariable v (if dtype (arrays w ! a) = DObject then NcStr
                  else NcDtype (dtype (arrays w ! a))) ns ''zlib'' 1 fv # tail"
      by blast
    then have "CreateVariable v (if dtype (arrays w ! a) = DObject then NcStr
                  else NcDtype (dtype (arrays w ! a))) ns ''zlib'' 1 fv \<in> set cs" by simp
    with sub all have "CreateVariable v (if dtype (arrays w ! a) = DObject then NcStr
                  else NcDtype (dtype (arrays w ! a))) ns ''zlib'' 1 fv \<in> set ?log"
      by blast
    then show ?thesis by blast
  qed
  have all2: "\<forall>(v, a) \<in> set cdat. object_not_str lib (arrays w ! a) \<longrightarrow>
            (\<forall>t ns z l fv. CreateVariable v t ns z l fv \<notin> set ?log)
            \<and> (\<forall>x. AssignData v x \<notin> set ?log)"
    using 2 by blast
  have all3: "\<forall>(v, a) \<in> set cdat. \<forall>t ns z l fv.
            CreateVariable v t ns z l fv \<in> set ?log \<longrightarrow>
            t = (if dtype (arrays w ! a) = DObject then NcStr
                 else NcDtype (dtype (arrays w ! a)))"
    using 3 by blast
  have all4: "fst ?res = Inr () \<longrightarrow>
            (\<forall>(v, a) \<in> set cdat. \<exists>ns fv.
               CreateVariable v
                 (if dtype (arrays w ! a) = DObject then NcStr
                  else NcDtype (dtype (arrays w ! a))) ns ''zlib'' 1 fv \<in> set ?log)"
    using 4 by blast
  show ?thesis
    apply (intro conjI)
       apply (rule 1)
      apply (rule all2)
     apply (rule all3)
    apply (rule all4)
    done
qed

lemmas world_defs = read_array_def new_array_def read_names_def new_names_def write_names_def
  read_sizes_def new_sizes_def write_sizes_def log_event_def nc_do_def open_for_write_def
  calls_on_def accepts_all_def
lemmas monad_defs = then_do_def py_return_def py_raise_def lift_def and_then_def


lemma write_cdat_output_lat:
  "fst (write_cdat accepts_all [(''lat'', 0)] output_dims output_attrs ''out.nc'' output_world)
     = Inr ()"
  by (simp add: write_cdat_def output_world_def output_dims_def output_attrs_def
      monad_defs world_defs dict_get_def output_dtype_def first_element_def)

theorem write_cdat_format_error_witness:
  "distinct (map fst [(''lat'', 0 :: nat), (''flag'', 2)])
   \<and> valid_dims output_world output_dims
   \<and> open_error accepts_all ''out.nc'' = None
   \<and> never_raises accepts_all (ValueError format_error)
   \<and> fst (write_cdat accepts_all [(''lat'', 0)] output_dims output_attrs ''out.nc''
            output_world) = Inr ()
   \<and> object_not_str accepts_all (arrays output_world ! 2)
   \<and> fst (write_cdat accepts_all [(''lat'', 0), (''flag'', 2)] output_dims output_attrs
            ''out.nc'' output_world) = Inl (ValueError format_error)
   \<and> (\<forall>x. AssignData ''flag'' x
         \<notin> set (calls_on (snd (write_cdat accepts_all [(''lat'', 0), (''flag'', 2)] output_dims
                                output_attrs ''out.nc'' output_world)) ''out.nc''))"
proof -
  have h: "distinct (map fst [(''lat'', 0 :: nat), (''flag'', 2)])"
    "valid_dims output_world output_dims"
    "open_error accepts_all ''out.nc'' = None"
    "never_raises accepts_all (ValueError format_error)"
    by (simp_all add: valid_dims_def output_world_def output_dims_def accepts_all_def
        never_raises_def py_index_def Let_def)
  have bad: "object_not_str accepts_all (arrays output_world ! 2)"
    by (simp add: object_not_str_def first_element_def py_index_def output_world_def)
  have split: "[(''lat'', 0 :: nat), (''flag'', 2)] = [(''lat'', 0)] @ (''flag'', 2) # []"
    "map_of output_attrs ''flag'' \<noteq> None" "2 < length (arrays output_world)"
    "(''flag'', 2) \<in> set [(''lat'', 0 :: nat), (''flag'', 2)]"
    by (simp_all add: output_attrs_def output_world_def)
  note inst = write_cdat_format_error [OF h, of output_attrs]
  have reach: "\<exists>pre v a post. [(''lat'', 0), (''flag'', 2)] = pre @ (v, a) # post
      \<and> fst (write_cdat accepts_all pre output_dims output_attrs ''out.nc'' output_world)
            = Inr ()
      \<and> map_of output_attrs v \<noteq> None \<and> a < length (arrays output_world)
      \<and> object_not_str accepts_all (arrays output_world ! a)"
    using split bad write_cdat_output_lat
    by (intro exI [of _ "[(''lat'', 0)]"] exI [of _ "''flag''"] exI [of _ 2] exI [of _ "[]"])
       simp
  from inst [THEN conjunct1, THEN iffD2, OF reach]
  have err: "fst (write_cdat accepts_all [(''lat'', 0), (''flag'', 2)] output_dims output_attrs
            ''out.nc'' output_world) = Inl (ValueError format_error)" .
  from bspec [OF inst [THEN conjunct2, THEN conjunct1] split(4)] bad
  have none: "\<forall>x. AssignData ''flag'' x
         \<notin> set (calls_on (snd (write_cdat accepts_all [(''lat'', 0), (''flag'', 2)] output_dims
                                output_attrs ''out.nc'' output_world)) ''out.nc'')"
    by simp
  show ?thesis
    apply (intro conjI)
           apply (rule h(1))
          apply (rule h(2))
         apply (rule h(3))
        apply (rule h(4))
       apply (rule write_cdat_output_lat)
      apply (rule bad)
     apply (rule err)
    apply (rule none)
    done
qed


section \<open>Properties of the aggregator\<close>

lemma extends_refl: "extends w w"
  by (simp add: extends_def)

lemma extends_trans: "extends w w' \<Longrightarrow> extends w' w'' \<Longrightarrow> extends w w''"
  by (auto simp: extends_def)

lemma extends_arrays:
  "extends w w' \<Longrightarrow> length (arrays w) \<le> length (arrays w')
     \<and> (\<forall>a < length (arrays w). arrays w' ! a = arrays w ! a)"
  by (auto simp: extends_def nth_append)

lemma extends_name_lists:
  "extends w w' \<Longrightarrow> length (name_lists w) \<le> length (name_lists w')
     \<and> (\<forall>n < length (name_lists w). name_lists w' ! n = name_lists w ! n)"
  by (auto simp: extends_def nth_append)

lemma extends_size_lists:
  "extends w w' \<Longrightarrow> length (size_lists w) \<le> length (size_lists w')
     \<and> (\<forall>z < length (size_lists w). size_lists w' ! z = size_lists w ! z)"
  by (auto simp: extends_def nth_append)

lemma extends_new_array: "extends w (w\<lparr>arrays := arrays w @ [x]\<rparr>)"
  by (simp add: extends_def)

lemma extends_new_lists:
  "extends w (w\<lparr>name_lists := name_lists w @ [ns], size_lists := size_lists w @ [ks]\<rparr>)"
  by (simp add: extends_def)

lemma set_update_subset: "set (AList.update k v al) \<subseteq> insert (k, v) (set al)"
  by (induction al) auto

lemma seed_cdat_frame:
  "seed_cdat first cdat w = (r, w') \<Longrightarrow> extends w w'"
proof (induction first arbitrary: cdat w)
  case Nil
  then show ?case by (simp add: py_return_def extends_refl)
next
  case (Cons p rest)
  obtain v a where p: "p = (v, a)" by (cases p)
  show ?case
  proof (cases "a < length (arrays w)")
    case False
    with Cons.prems p show ?thesis
      by (simp add: then_do_def read_array_def extends_refl)
  next
    case True
    let ?w1 = "w\<lparr>arrays := arrays w @ [arrays w ! a]\<rparr>"
    from Cons.prems p True
    have "seed_cdat rest (AList.update v (length (arrays w)) cdat) ?w1 = (r, w')"
      by (simp add: then_do_def read_array_def new_array_def)
    from Cons.IH [OF this] extends_new_array [of w] show ?thesis
      by (blast intro: extends_trans)
  qed
qed

lemma concat_variables_frame:
  "concat_variables p dims dat cdat w = (r, w') \<Longrightarrow> extends w w'"
proof (induction dat arbitrary: cdat w)
  case Nil
  then show ?case by (simp add: py_return_def extends_refl)
next
  case (Cons q rest)
  obtain v a where q: "q = (v, a)" by (cases q)
  from Cons.prems q consider
      (stop) "w' = w"
    | (skip) "concat_variables p dims rest cdat w = (r, w')"
    | (cat) c xy where "concat_variables p dims rest (AList.update v c cdat)
                          (w\<lparr>arrays := arrays w @ [xy]\<rparr>) = (r, w')"
    by (auto simp: then_do_def lift_def read_array_def read_names_def new_array_def
        split: sum.splits if_splits)
  then show ?case
  proof cases
    case stop
    then show ?thesis by (simp add: extends_refl)
  next
    case skip
    then show ?thesis by (rule Cons.IH)
  next
    case cat
    from Cons.IH [OF this] extends_new_array [of w] show ?thesis
      by (blast intro: extends_trans)
  qed
qed

lemma concat_records_frame:
  "concat_records p dims dats cdat w = (r, w') \<Longrightarrow> extends w w'"
proof (induction dats arbitrary: cdat w)
  case Nil
  then show ?case by (simp add: py_return_def extends_refl)
next
  case (Cons dat rest)
  obtain r1 w1 where 1: "concat_variables p dims dat cdat w = (r1, w1)"
    by (cases "concat_variables p dims dat cdat w")
  then have e1: "extends w w1" by (rule concat_variables_frame)
  show ?case
  proof (cases r1)
    case (Inl e)
    with Cons.prems 1 e1 show ?thesis by (simp add: then_do_def)
  next
    case (Inr cdat1)
    with Cons.prems 1 have "concat_records p dims rest cdat1 w1 = (r, w')"
      by (simp add: then_do_def)
    from Cons.IH [OF this] e1 show ?thesis by (blast intro: extends_trans)
  qed
qed

lemmas step_defs = then_do_def lift_def py_return_def py_raise_def dict_get_def
  read_array_def read_names_def read_sizes_def new_names_def new_sizes_def new_array_def
  write_sizes_def py_index_def

lemma reconcile_dims_plain:
  assumes "map_of dims v = Some d"
    and "names d < length (name_lists w)" and "sizes d < length (size_lists w)"
    and "\<not> (name_lists w ! names d \<noteq> [] \<and> hd (name_lists w ! names d) = ''atrack'')"
  shows "reconcile_dims dims ((v, c) # rest) cdims w
         = reconcile_dims dims rest
             (AList.update v \<lparr>names = length (name_lists w), sizes = length (size_lists w)\<rparr> cdims)
             (w\<lparr>name_lists := name_lists w @ [name_lists w ! names d],
                size_lists := size_lists w @ [size_lists w ! sizes d]\<rparr>)"
  using assms by (auto simp: step_defs)

lemma reconcile_dims_track:
  assumes "map_of dims v = Some d"
    and "names d < length (name_lists w)" and "sizes d < length (size_lists w)"
    and "name_lists w ! names d \<noteq> []" and "hd (name_lists w ! names d) = ''atrack''"
    and "c < length (arrays w)" and "shape (arrays w ! c) = m # sh"
    and "size_lists w ! sizes d = k # ks"
  shows "reconcile_dims dims ((v, c) # rest) cdims w
         = reconcile_dims dims rest
             (AList.update v \<lparr>names = length (name_lists w), sizes = length (size_lists w)\<rparr> cdims)
             (w\<lparr>name_lists := name_lists w @ [name_lists w ! names d],
                size_lists := size_lists w @ [m # ks]\<rparr>)"
  using assms by (simp add: step_defs)

lemma reconcile_dims_stop:
  assumes "map_of dims v = None
         \<or> (\<exists>d. map_of dims v = Some d \<and>
              (\<not> names d < length (name_lists w) \<or> \<not> sizes d < length (size_lists w)
               \<or> (name_lists w ! names d \<noteq> [] \<and> hd (name_lists w ! names d) = ''atrack''
                   \<and> (\<not> c < length (arrays w) \<or> shape (arrays w ! c) = []
                       \<or> size_lists w ! sizes d = []))))"
  shows "\<exists>e w1. reconcile_dims dims ((v, c) # rest) cdims w = (Inl e, w1) \<and> extends w w1"
  using assms
  by (auto simp: step_defs extends_def split: list.splits)

declare reconcile_dims.simps(2) [simp del]

lemma reconcile_dims_frame:
  "reconcile_dims dims vars cdims w = (r, w') \<Longrightarrow> extends w w'"
proof (induction vars arbitrary: cdims w)
  case Nil
  then show ?case by (simp add: py_return_def extends_refl)
next
  case (Cons p rest)
  obtain v c where p: "p = (v, c)" by (cases p)
  let ?stop = "map_of dims v = None
         \<or> (\<exists>d. map_of dims v = Some d \<and>
              (\<not> names d < length (name_lists w) \<or> \<not> sizes d < length (size_lists w)
               \<or> (name_lists w ! names d \<noteq> [] \<and> hd (name_lists w ! names d) = ''atrack''
                   \<and> (\<not> c < length (arrays w) \<or> shape (arrays w ! c) = []
                       \<or> size_lists w ! sizes d = []))))"
  show ?case
  proof (cases ?stop)
    case True
    from reconcile_dims_stop [OF True, of rest cdims] Cons.prems p show ?thesis by auto
  next
    case False
    then obtain d where d: "map_of dims v = Some d"
      and n: "names d < length (name_lists w)" and z: "sizes d < length (size_lists w)"
      by auto
    show ?thesis
    proof (cases "name_lists w ! names d \<noteq> [] \<and> hd (name_lists w ! names d) = ''atrack''")
      case plain: False
      let ?w1 = "w\<lparr>name_lists := name_lists w @ [name_lists w ! names d],
                   size_lists := size_lists w @ [size_lists w ! sizes d]\<rparr>"
      from reconcile_dims_plain [OF d n z plain] Cons.prems p
      have "reconcile_dims dims rest
             (AList.update v \<lparr>names = length (name_lists w), sizes = length (size_lists w)\<rparr> cdims)
             ?w1 = (r, w')" by simp
      from Cons.IH [OF this] extends_new_lists [of w] show ?thesis
        by (blast intro: extends_trans)
    next
      case track: True
      with False d n z obtain m sh k ks where
        c: "c < length (arrays w)" and sh: "shape (arrays w ! c) = m # sh"
        and ks: "size_lists w ! sizes d = k # ks"
        by (cases "shape (arrays w ! c)"; cases "size_lists w ! sizes d") auto
      let ?w1 = "w\<lparr>name_lists := name_lists w @ [name_lists w ! names d],
                   size_lists := size_lists w @ [m # ks]\<rparr>"
      from track have t1: "name_lists w ! names d \<noteq> []"
        and t2: "hd (name_lists w ! names d) = ''atrack''" by simp_all
      from reconcile_dims_track [OF d n z t1 t2 c sh ks] Cons.prems p
      have "reconcile_dims dims rest
             (AList.update v \<lparr>names = length (name_lists w), sizes = length (size_lists w)\<rparr> cdims)
             ?w1 = (r, w')" by simp
      from Cons.IH [OF this] extends_new_lists [of w] show ?thesis
        by (blast intro: extends_trans)
    qed
  qed
qed

lemma seed_cdat_step:
  "a < length (arrays w) \<Longrightarrow>
   seed_cdat ((v, a) # rest) cdat w
     = seed_cdat rest (AList.update v (length (arrays w)) cdat)
         (w\<lparr>arrays := arrays w @ [arrays w ! a]\<rparr>)"
  by (simp add: step_defs)

lemma seed_cdat_stop:
  "\<not> a < length (arrays w) \<Longrightarrow> seed_cdat ((v, a) # rest) cdat w = (Inl Dangling, w)"
  by (simp add: step_defs)

lemma concat_variables_skip:
  "skips w dims v \<Longrightarrow>
   concat_variables p dims ((v, a) # rest) cdat w = concat_variables p dims rest cdat w"
  by (auto simp: skips_def step_defs)

lemma concat_variables_join:
  "joins p w dims cdat v a xy \<Longrightarrow>
   concat_variables p dims ((v, a) # rest) cdat w
     = concat_variables p dims rest (AList.update v (length (arrays w)) cdat)
         (w\<lparr>arrays := arrays w @ [xy]\<rparr>)"
  by (auto simp: joins_def step_defs)

lemma concat_variables_stop:
  "\<not> skips w dims v \<Longrightarrow> \<forall>xy. \<not> joins p w dims cdat v a xy \<Longrightarrow>
   \<exists>e. concat_variables p dims ((v, a) # rest) cdat w = (Inl e, w)"
  by (auto simp: skips_def joins_def step_defs split: option.splits sum.splits)

declare seed_cdat.simps(2) [simp del] concat_variables.simps(2) [simp del]

lemma seed_cdat_fresh:
  assumes "L \<le> length (arrays w)"
    and "\<forall>(v, c) \<in> set cdat. L \<le> c \<and> c < length (arrays w)"
    and "seed_cdat first cdat w = (Inr cdat', w')"
  shows "\<forall>(v, c) \<in> set cdat'. L \<le> c \<and> c < length (arrays w')"
  using assms
proof (induction first arbitrary: cdat w)
  case Nil
  then show ?case by (simp add: py_return_def)
next
  case (Cons q rest)
  obtain v a where q: "q = (v, a)" by (cases q)
  show ?case
  proof (cases "a < length (arrays w)")
    case False
    from seed_cdat_stop [OF False] Cons.prems q show ?thesis by simp
  next
    case True
    let ?w1 = "w\<lparr>arrays := arrays w @ [arrays w ! a]\<rparr>"
    let ?cdat1 = "AList.update v (length (arrays w)) cdat"
    from seed_cdat_step [OF True] Cons.prems q
    have run: "seed_cdat rest ?cdat1 ?w1 = (Inr cdat', w')" by simp
    have 1: "L \<le> length (arrays ?w1)" using Cons.prems(1) by simp
    have 2: "\<forall>(v, c) \<in> set ?cdat1. L \<le> c \<and> c < length (arrays ?w1)"
      using Cons.prems(1,2) set_update_subset [of v "length (arrays w)" cdat]
      by fastforce
    from Cons.IH [OF 1 2 run] show ?thesis .
  qed
qed

lemma concat_variables_fresh:
  assumes "L \<le> length (arrays w)"
    and "\<forall>(v, c) \<in> set cdat. L \<le> c \<and> c < length (arrays w)"
    and "concat_variables p dims dat cdat w = (Inr cdat', w')"
  shows "\<forall>(v, c) \<in> set cdat'. L \<le> c \<and> c < length (arrays w')"
  using assms
proof (induction dat arbitrary: cdat w)
  case Nil
  then show ?case by (simp add: py_return_def)
next
  case (Cons q rest)
  obtain v a where q: "q = (v, a)" by (cases q)
  consider (skip) "skips w dims v" | (join) xy where "joins p w dims cdat v a xy"
    | (stop) "\<not> skips w dims v" "\<forall>xy. \<not> joins p w dims cdat v a xy"
    by blast
  then show ?case
  proof cases
    case skip
    from concat_variables_skip [OF skip] Cons.prems q
    have "concat_variables p dims rest cdat w = (Inr cdat', w')" by simp
    from Cons.IH [OF Cons.prems(1,2) this] show ?thesis .
  next
    case join
    let ?w1 = "w\<lparr>arrays := arrays w @ [xy]\<rparr>"
    let ?cdat1 = "AList.update v (length (arrays w)) cdat"
    from concat_variables_join [OF join] Cons.prems q
    have run: "concat_variables p dims rest ?cdat1 ?w1 = (Inr cdat', w')" by simp
    have 1: "L \<le> length (arrays ?w1)" using Cons.prems(1) by simp
    have 2: "\<forall>(v, c) \<in> set ?cdat1. L \<le> c \<and> c < length (arrays ?w1)"
      using Cons.prems(1,2) set_update_subset [of v "length (arrays w)" cdat]
      by fastforce
    from Cons.IH [OF 1 2 run] show ?thesis .
  next
    case stop
    from concat_variables_stop [OF stop, of rest] Cons.prems q show ?thesis by auto
  qed
qed

lemma concat_records_fresh:
  assumes "L \<le> length (arrays w)"
    and "\<forall>(v, c) \<in> set cdat. L \<le> c \<and> c < length (arrays w)"
    and "concat_records p dims dats cdat w = (Inr cdat', w')"
  shows "\<forall>(v, c) \<in> set cdat'. L \<le> c \<and> c < length (arrays w')"
  using assms
proof (induction dats arbitrary: cdat w)
  case Nil
  then show ?case by (simp add: py_return_def)
next
  case (Cons dat rest)
  obtain r1 w1 where 1: "concat_variables p dims dat cdat w = (r1, w1)"
    by (cases "concat_variables p dims dat cdat w")
  with Cons.prems(3) obtain cdat1 where r1: "r1 = Inr cdat1"
    and run: "concat_records p dims rest cdat1 w1 = (Inr cdat', w')"
    by (cases r1) (auto simp: then_do_def)
  from extends_arrays [OF concat_variables_frame [OF 1]]
  have "length (arrays w) \<le> length (arrays w1)" by simp
  with Cons.prems(1) have L: "L \<le> length (arrays w1)" by simp
  from concat_variables_fresh [OF Cons.prems(1,2)] 1 r1
  have "\<forall>(v, c) \<in> set cdat1. L \<le> c \<and> c < length (arrays w1)" by simp
  from Cons.IH [OF L this run] show ?case .
qed

lemma reconcile_dims_fresh:
  assumes "Ln \<le> length (name_lists w)" and "Lz \<le> length (size_lists w)"
    and "\<forall>(v, d) \<in> set cdims. Ln \<le> names d \<and> names d < length (name_lists w)
                               \<and> Lz \<le> sizes d \<and> sizes d < length (size_lists w)"
    and "reconcile_dims dims vars cdims w = (Inr cdims', w')"
  shows "\<forall>(v, d) \<in> set cdims'. Ln \<le> names d \<and> names d < length (name_lists w')
                               \<and> Lz \<le> sizes d \<and> sizes d < length (size_lists w')"
  using assms
proof (induction vars arbitrary: cdims w)
  case Nil
  then show ?case by (simp add: py_return_def)
next
  case (Cons q rest)
  obtain v c where q: "q = (v, c)" by (cases q)
  let ?stop = "map_of dims v = None
         \<or> (\<exists>d. map_of dims v = Some d \<and>
              (\<not> names d < length (name_lists w) \<or> \<not> sizes d < length (size_lists w)
               \<or> (name_lists w ! names d \<noteq> [] \<and> hd (name_lists w ! names d) = ''atrack''
                   \<and> (\<not> c < length (arrays w) \<or> shape (arrays w ! c) = []
                       \<or> size_lists w ! sizes d = []))))"
  let ?cdims1 = "AList.update v \<lparr>names = length (name_lists w), sizes = length (size_lists w)\<rparr> cdims"
  have step: "\<forall>(v, d) \<in> set ?cdims1. Ln \<le> names d \<and> names d < length (name_lists w1)
                               \<and> Lz \<le> sizes d \<and> sizes d < length (size_lists w1)"
    if "length (name_lists w1) = Suc (length (name_lists w))"
      "length (size_lists w1) = Suc (length (size_lists w))" for w1
    using that Cons.prems(1,2,3)
      set_update_subset [of v "\<lparr>names = length (name_lists w), sizes = length (size_lists w)\<rparr>" cdims]
    by fastforce
  show ?case
  proof (cases ?stop)
    case True
    from reconcile_dims_stop [OF True, of rest cdims] Cons.prems q show ?thesis by auto
  next
    case False
    then obtain d where d: "map_of dims v = Some d"
      and n: "names d < length (name_lists w)" and z: "sizes d < length (size_lists w)"
      by auto
    show ?thesis
    proof (cases "name_lists w ! names d \<noteq> [] \<and> hd (name_lists w ! names d) = ''atrack''")
      case plain: False
      let ?w1 = "w\<lparr>name_lists := name_lists w @ [name_lists w ! names d],
                   size_lists := size_lists w @ [size_lists w ! sizes d]\<rparr>"
      from reconcile_dims_plain [OF d n z plain] Cons.prems q
      have run: "reconcile_dims dims rest ?cdims1 ?w1 = (Inr cdims', w')" by simp
      have "Ln \<le> length (name_lists ?w1)" "Lz \<le> length (size_lists ?w1)"
        using Cons.prems(1,2) by simp_all
      from Cons.IH [OF this _ run] step [of ?w1] show ?thesis by simp
    next
      case track: True
      with False d n z obtain m sh k ks where
        c: "c < length (arrays w)" and sh: "shape (arrays w ! c) = m # sh"
        and ks: "size_lists w ! sizes d = k # ks"
        by (cases "shape (arrays w ! c)"; cases "size_lists w ! sizes d") auto
      let ?w1 = "w\<lparr>name_lists := name_lists w @ [name_lists w ! names d],
                   size_lists := size_lists w @ [m # ks]\<rparr>"
      from track have t1: "name_lists w ! names d \<noteq> []"
        and t2: "hd (name_lists w ! names d) = ''atrack''" by simp_all
      from reconcile_dims_track [OF d n z t1 t2 c sh ks] Cons.prems q
      have run: "reconcile_dims dims rest ?cdims1 ?w1 = (Inr cdims', w')" by simp
      have "Ln \<le> length (name_lists ?w1)" "Lz \<le> length (size_lists ?w1)"
        using Cons.prems(1,2) by simp_all
      from Cons.IH [OF this _ run] step [of ?w1] show ?thesis by simp
    qed
  qed
qed

lemma py_index_0: "py_index xs 0 = (case xs of [] \<Rightarrow> Inl IndexError | x # rest \<Rightarrow> Inr x)"
  by (cases xs) (simp_all add: py_index_def)

lemma concat_granules_run:
  assumes "concat_granules p dat_list dims w = (Inr (cdat, cdims), w')"
  obtains first rest cdat1 w1 w2 where "dat_list = first # rest"
    and "seed_cdat first [] w = (Inr cdat1, w1)"
    and "concat_records p dims rest cdat1 w1 = (Inr cdat, w2)"
    and "reconcile_dims dims cdat [] w2 = (Inr cdims, w')"
proof -
  from assms obtain first rest where dl: "dat_list = first # rest"
    by (cases dat_list) (auto simp: concat_granules_def then_do_def lift_def py_index_0)
  obtain r1 w1 where 1: "seed_cdat first [] w = (r1, w1)"
    by (cases "seed_cdat first [] w")
  with assms dl obtain cdat1 where r1: "r1 = Inr cdat1"
    by (cases r1) (auto simp: concat_granules_def then_do_def lift_def py_index_0)
  obtain r2 w2 where 2: "concat_records p dims rest cdat1 w1 = (r2, w2)"
    by (cases "concat_records p dims rest cdat1 w1")
  with assms dl 1 r1 obtain cdat2 where r2: "r2 = Inr cdat2"
    by (cases r2) (auto simp: concat_granules_def then_do_def lift_def py_index_0)
  obtain r3 w3 where 3: "reconcile_dims dims cdat2 [] w2 = (r3, w3)"
    by (cases "reconcile_dims dims cdat2 [] w2")
  with assms dl 1 r1 2 r2 have "r3 = Inr cdims \<and> cdat2 = cdat \<and> w3 = w'"
    by (cases r3) (auto simp: concat_granules_def then_do_def lift_def py_index_0 py_return_def)
  with dl 1 r1 2 r2 3 that show thesis by blast
qed

lemma concat_granules_extends:
  assumes "concat_granules p dat_list dims w = (r, w')"
  shows "extends w w'"
proof (cases dat_list)
  case Nil
  with assms show ?thesis
    by (simp add: concat_granules_def then_do_def lift_def py_index_0 extends_refl)
next
  case (Cons first rest)
  obtain r1 w1 where 1: "seed_cdat first [] w = (r1, w1)"
    by (cases "seed_cdat first [] w")
  then have e1: "extends w w1" by (rule seed_cdat_frame)
  show ?thesis
  proof (cases r1)
    case (Inl e)
    with assms Cons 1 e1 show ?thesis
      by (simp add: concat_granules_def then_do_def lift_def py_index_0)
  next
    case (Inr cdat1)
    obtain r2 w2 where 2: "concat_records p dims rest cdat1 w1 = (r2, w2)"
      by (cases "concat_records p dims rest cdat1 w1")
    then have e2: "extends w1 w2" by (rule concat_records_frame)
    show ?thesis
    proof (cases r2)
      case (Inl e)
      with assms Cons 1 \<open>r1 = Inr cdat1\<close> 2 e1 e2 show ?thesis
        by (auto simp: concat_granules_def then_do_def lift_def py_index_0
            intro: extends_trans)
    next
      case r2: (Inr cdat2)
      obtain r3 w3 where 3: "reconcile_dims dims cdat2 [] w2 = (r3, w3)"
        by (cases "reconcile_dims dims cdat2 [] w2")
      then have e3: "extends w2 w3" by (rule reconcile_dims_frame)
      from assms Cons 1 \<open>r1 = Inr cdat1\<close> 2 r2 3 have "w' = w3"
        by (cases r3)
           (auto simp: concat_granules_def then_do_def lift_def py_index_0 py_return_def)
      with e1 e2 e3 show ?thesis by (blast intro: extends_trans)
    qed
  qed
qed

text \<open>
  C10: \<^verbatim>\<open>concat_granules\<close> does not mutate its inputs.  Whether it returns or raises, every
  array, name list and size list that was in the store before the call is there afterwards
  under the same reference and with the same contents, and the rest of the world is
  untouched.  When it returns, every array of the aggregate and every list of the
  reconciled descriptors is an object created during the call: the arrays seeded from the
  first record are copies, and the reconciled descriptors are new lists.
\<close>

theorem concat_granules_frame:
  assumes "concat_granules promote_types dat_list dims w = (r, w')"
  shows "(\<forall>a < length (arrays w). arrays w' ! a = arrays w ! a)
       \<and> (\<forall>n < length (name_lists w). name_lists w' ! n = name_lists w ! n)
       \<and> (\<forall>z < length (size_lists w). size_lists w' ! z = size_lists w ! z)
       \<and> trace w' = trace w \<and> written w' = written w \<and> readable w' = readable w
       \<and> (\<forall>cdat cdims. r = Inr (cdat, cdims) \<longrightarrow>
            (\<forall>(v, c) \<in> set cdat. length (arrays w) \<le> c \<and> c < length (arrays w'))
          \<and> (\<forall>(v, d) \<in> set cdims.
                length (name_lists w) \<le> names d \<and> names d < length (name_lists w')
              \<and> length (size_lists w) \<le> sizes d \<and> sizes d < length (size_lists w')))"
proof -
  from concat_granules_extends [OF assms] have ext: "extends w w'" .
  have fresh: "(\<forall>(v, c) \<in> set cdat. length (arrays w) \<le> c \<and> c < length (arrays w'))
          \<and> (\<forall>(v, d) \<in> set cdims.
                length (name_lists w) \<le> names d \<and> names d < length (name_lists w')
              \<and> length (size_lists w) \<le> sizes d \<and> sizes d < length (size_lists w'))"
    if r: "r = Inr (cdat, cdims)" for cdat cdims
  proof -
    from assms r obtain first rest cdat1 w1 w2 where
      1: "seed_cdat first [] w = (Inr cdat1, w1)"
      and 2: "concat_records promote_types dims rest cdat1 w1 = (Inr cdat, w2)"
      and 3: "reconcile_dims dims cdat [] w2 = (Inr cdims, w')"
      by (auto elim: concat_granules_run)
    from seed_cdat_frame [OF 1] have e1: "extends w w1" .
    from concat_records_frame [OF 2] have e2: "extends w1 w2" .
    from reconcile_dims_frame [OF 3] have e3: "extends w2 w'" .
    from e1 e2 have e12: "extends w w2" by (rule extends_trans)
    have f1: "\<forall>(v, c) \<in> set cdat1. length (arrays w) \<le> c \<and> c < length (arrays w1)"
      using seed_cdat_fresh [OF _ _ 1, of "length (arrays w)"] by simp
    from extends_arrays [OF e1] have "length (arrays w) \<le> length (arrays w1)" by simp
    from concat_records_fresh [OF this f1 2]
    have f2: "\<forall>(v, c) \<in> set cdat. length (arrays w) \<le> c \<and> c < length (arrays w2)" .
    from extends_arrays [OF e3] have "length (arrays w2) \<le> length (arrays w')" by simp
    with f2 have a: "\<forall>(v, c) \<in> set cdat. length (arrays w) \<le> c \<and> c < length (arrays w')"
      by fastforce
    from extends_name_lists [OF e12] extends_size_lists [OF e12]
    have "length (name_lists w) \<le> length (name_lists w2)"
      "length (size_lists w) \<le> length (size_lists w2)"
      by simp_all
    from reconcile_dims_fresh [OF this _ 3]
    have b: "\<forall>(v, d) \<in> set cdims.
                length (name_lists w) \<le> names d \<and> names d < length (name_lists w')
              \<and> length (size_lists w) \<le> sizes d \<and> sizes d < length (size_lists w')"
      by simp
    from a b show ?thesis ..
  qed
  from ext have "trace w' = trace w" "written w' = written w" "readable w' = readable w"
    by (simp_all add: extends_def)
  with fresh extends_arrays [OF ext] extends_name_lists [OF ext] extends_size_lists [OF ext]
  show ?thesis by simp
qed

lemma seed_cdat_values:
  assumes "extends w0 w"
    and "\<forall>(v, a) \<in> set rest. M v = Some a \<and> a < length (arrays w0)"
    and "\<forall>v c. map_of cdat v = Some c \<longrightarrow>
           c < length (arrays w) \<and> (\<exists>a. M v = Some a \<and> arrays w ! c = arrays w0 ! a)"
    and "seed_cdat rest cdat w = (Inr cdat', w')"
  shows "\<forall>v c. map_of cdat' v = Some c \<longrightarrow>
           c < length (arrays w') \<and> (\<exists>a. M v = Some a \<and> arrays w' ! c = arrays w0 ! a)"
  using assms
proof (induction rest arbitrary: cdat w)
  case Nil
  then show ?case by (simp add: py_return_def)
next
  case (Cons q rest)
  obtain v a where q: "q = (v, a)" by (cases q)
  from Cons.prems(2) q have M: "M v = Some a" and a0: "a < length (arrays w0)" by auto
  from Cons.prems(1) a0 have a: "a < length (arrays w)" and eq: "arrays w ! a = arrays w0 ! a"
    using extends_arrays [of w0 w] by auto
  let ?w1 = "w\<lparr>arrays := arrays w @ [arrays w ! a]\<rparr>"
  let ?cdat1 = "AList.update v (length (arrays w)) cdat"
  from seed_cdat_step [OF a] Cons.prems(4) q
  have run: "seed_cdat rest ?cdat1 ?w1 = (Inr cdat', w')" by simp
  have e1: "extends w0 ?w1"
    using Cons.prems(1) extends_new_array [of w] by (blast intro: extends_trans)
  have r: "\<forall>(v, a) \<in> set rest. M v = Some a \<and> a < length (arrays w0)"
    using Cons.prems(2) by simp
  have inv: "\<forall>v' c. map_of ?cdat1 v' = Some c \<longrightarrow>
           c < length (arrays ?w1)
           \<and> (\<exists>a. M v' = Some a \<and> arrays ?w1 ! c = arrays w0 ! a)"
  proof (intro allI impI)
    fix v' c assume m: "map_of ?cdat1 v' = Some c"
    show "c < length (arrays ?w1) \<and> (\<exists>a. M v' = Some a \<and> arrays ?w1 ! c = arrays w0 ! a)"
    proof (cases "v' = v")
      case True
      with m have "c = length (arrays w)" by (simp add: update_conv')
      with True M eq show ?thesis by simp
    next
      case False
      with m have "map_of cdat v' = Some c" by (simp add: update_conv')
      with Cons.prems(3) have "c < length (arrays w)"
        and "\<exists>a. M v' = Some a \<and> arrays w ! c = arrays w0 ! a" by blast+
      then show ?thesis by (simp add: nth_append)
    qed
  qed
  from Cons.IH [OF e1 r inv run] show ?case .
qed

lemma skips_not_joins: "skips w dims v \<Longrightarrow> \<not> joins p w dims cdat v a xy"
  by (auto simp: skips_def joins_def)

lemma concat_variables_static:
  assumes "skips w dims v"
    and "concat_variables p dims dat cdat w = (Inr cdat', w')"
  shows "map_of cdat' v = map_of cdat v"
  using assms
proof (induction dat arbitrary: cdat w)
  case Nil
  then show ?case by (simp add: py_return_def)
next
  case (Cons q rest)
  obtain v' a where q: "q = (v', a)" by (cases q)
  consider (skip) "skips w dims v'" | (join) xy where "joins p w dims cdat v' a xy"
    | (stop) "\<not> skips w dims v'" "\<forall>xy. \<not> joins p w dims cdat v' a xy"
    by blast
  then show ?case
  proof cases
    case skip
    from concat_variables_skip [OF skip] Cons.prems q
    have "concat_variables p dims rest cdat w = (Inr cdat', w')" by simp
    from Cons.IH [OF Cons.prems(1) this] show ?thesis .
  next
    case join
    let ?w1 = "w\<lparr>arrays := arrays w @ [xy]\<rparr>"
    let ?cdat1 = "AList.update v' (length (arrays w)) cdat"
    from join Cons.prems(1) have ne: "v' \<noteq> v"
      using skips_not_joins by blast
    from concat_variables_join [OF join] Cons.prems q
    have run: "concat_variables p dims rest ?cdat1 ?w1 = (Inr cdat', w')" by simp
    from Cons.prems(1) have "skips ?w1 dims v" by (simp add: skips_def)
    from Cons.IH [OF this run] ne show ?thesis by (simp add: update_conv')
  next
    case stop
    from concat_variables_stop [OF stop, of rest] Cons.prems q show ?thesis by auto
  qed
qed

lemma concat_variables_lists:
  "concat_variables p dims dat cdat w = (r, w') \<Longrightarrow>
     name_lists w' = name_lists w \<and> size_lists w' = size_lists w"
proof (induction dat arbitrary: cdat w)
  case Nil
  then show ?case by (simp add: py_return_def)
next
  case (Cons q rest)
  obtain v' a where q: "q = (v', a)" by (cases q)
  consider (skip) "skips w dims v'" | (join) xy where "joins p w dims cdat v' a xy"
    | (stop) "\<not> skips w dims v'" "\<forall>xy. \<not> joins p w dims cdat v' a xy"
    by blast
  then show ?case
  proof cases
    case skip
    from concat_variables_skip [OF skip] Cons.prems q
    have "concat_variables p dims rest cdat w = (r, w')" by simp
    from Cons.IH [OF this] show ?thesis .
  next
    case join
    from concat_variables_join [OF join] Cons.prems q
    have "concat_variables p dims rest (AList.update v' (length (arrays w)) cdat)
            (w\<lparr>arrays := arrays w @ [xy]\<rparr>) = (r, w')" by simp
    from Cons.IH [OF this] show ?thesis by simp
  next
    case stop
    from concat_variables_stop [OF stop, of rest] Cons.prems q show ?thesis by auto
  qed
qed

lemma concat_records_static:
  assumes "skips w dims v"
    and "concat_records p dims dats cdat w = (Inr cdat', w')"
  shows "map_of cdat' v = map_of cdat v"
  using assms
proof (induction dats arbitrary: cdat w)
  case Nil
  then show ?case by (simp add: py_return_def)
next
  case (Cons dat rest)
  obtain r1 w1 where 1: "concat_variables p dims dat cdat w = (r1, w1)"
    by (cases "concat_variables p dims dat cdat w")
  with Cons.prems(2) obtain cdat1 where r1: "r1 = Inr cdat1"
    and run: "concat_records p dims rest cdat1 w1 = (Inr cdat', w')"
    by (cases r1) (auto simp: then_do_def)
  from concat_variables_lists [OF 1] Cons.prems(1) have "skips w1 dims v"
    by (simp add: skips_def)
  from 1 r1 have "concat_variables p dims dat cdat w = (Inr cdat1, w1)" by simp
  from Cons.IH [OF \<open>skips w1 dims v\<close> run] concat_variables_static [OF Cons.prems(1) this]
  show ?case by simp
qed

lemma seed_cdat_lists:
  "seed_cdat first cdat w = (r, w') \<Longrightarrow>
     name_lists w' = name_lists w \<and> size_lists w' = size_lists w"
proof (induction first arbitrary: cdat w)
  case Nil
  then show ?case by (simp add: py_return_def)
next
  case (Cons q rest)
  obtain v a where q: "q = (v, a)" by (cases q)
  show ?case
  proof (cases "a < length (arrays w)")
    case False
    from seed_cdat_stop [OF False] Cons.prems q show ?thesis by simp
  next
    case True
    from seed_cdat_step [OF True] Cons.prems q
    have "seed_cdat rest (AList.update v (length (arrays w)) cdat)
            (w\<lparr>arrays := arrays w @ [arrays w ! a]\<rparr>) = (r, w')" by simp
    from Cons.IH [OF this] show ?thesis by simp
  qed
qed

lemma seed_cdat_keys:
  "seed_cdat first cdat w = (Inr cdat', w') \<Longrightarrow>
     fst ` set cdat' = fst ` set cdat \<union> fst ` set first"
proof (induction first arbitrary: cdat w)
  case Nil
  then show ?case by (simp add: py_return_def)
next
  case (Cons q rest)
  obtain v a where q: "q = (v, a)" by (cases q)
  show ?case
  proof (cases "a < length (arrays w)")
    case False
    from seed_cdat_stop [OF False] Cons.prems q show ?thesis by simp
  next
    case True
    from seed_cdat_step [OF True] Cons.prems q
    have "seed_cdat rest (AList.update v (length (arrays w)) cdat)
            (w\<lparr>arrays := arrays w @ [arrays w ! a]\<rparr>) = (Inr cdat', w')" by simp
    from Cons.IH [OF this] q show ?thesis by (simp add: dom_update)
  qed
qed

lemma concat_variables_keys:
  "concat_variables p dims dat cdat w = (Inr cdat', w') \<Longrightarrow> fst ` set cdat' = fst ` set cdat"
proof (induction dat arbitrary: cdat w)
  case Nil
  then show ?case by (simp add: py_return_def)
next
  case (Cons q rest)
  obtain v a where q: "q = (v, a)" by (cases q)
  consider (skip) "skips w dims v" | (join) xy where "joins p w dims cdat v a xy"
    | (stop) "\<not> skips w dims v" "\<forall>xy. \<not> joins p w dims cdat v a xy"
    by blast
  then show ?case
  proof cases
    case skip
    from concat_variables_skip [OF skip] Cons.prems q
    have "concat_variables p dims rest cdat w = (Inr cdat', w')" by simp
    from Cons.IH [OF this] show ?thesis .
  next
    case join
    from join obtain c where "map_of cdat v = Some c" by (auto simp: joins_def)
    then have "(v, c) \<in> set cdat" by (rule map_of_SomeD)
    then have mem: "v \<in> fst ` set cdat" by (rule rev_image_eqI) simp
    from concat_variables_join [OF join] Cons.prems q
    have "concat_variables p dims rest (AList.update v (length (arrays w)) cdat)
            (w\<lparr>arrays := arrays w @ [xy]\<rparr>) = (Inr cdat', w')" by simp
    from Cons.IH [OF this] mem show ?thesis by (auto simp: dom_update)
  next
    case stop
    from concat_variables_stop [OF stop, of rest] Cons.prems q show ?thesis by auto
  qed
qed

lemma concat_records_keys:
  "concat_records p dims dats cdat w = (Inr cdat', w') \<Longrightarrow> fst ` set cdat' = fst ` set cdat"
proof (induction dats arbitrary: cdat w)
  case Nil
  then show ?case by (simp add: py_return_def)
next
  case (Cons dat rest)
  obtain r1 w1 where 1: "concat_variables p dims dat cdat w = (r1, w1)"
    by (cases "concat_variables p dims dat cdat w")
  with Cons.prems obtain cdat1 where r1: "r1 = Inr cdat1"
    and run: "concat_records p dims rest cdat1 w1 = (Inr cdat', w')"
    by (cases r1) (auto simp: then_do_def)
  from 1 r1 have "concat_variables p dims dat cdat w = (Inr cdat1, w1)" by simp
  from Cons.IH [OF run] concat_variables_keys [OF this] show ?case by simp
qed

text \<open>
  C6: when \<^verbatim>\<open>concat_granules\<close> returns, a variable whose dimension names do not contain
  \<^verbatim>\<open>'atrack'\<close> is in the aggregate exactly when it is in the first record, and its array
  in the aggregate is an array of the store after the call that equals the array the
  first record held for it before the call, however many records there are.  The first
  record is a dictionary (distinct keys) whose references designate arrays of the store.
\<close>

theorem concat_granules_static:
  assumes "concat_granules promote_types dat_list dims w = (Inr (cdat, cdims), w')"
    and "valid_dat w (hd dat_list)"
    and "map_of dims v = Some d" and "names d < length (name_lists w)"
    and "''atrack'' \<notin> set (name_lists w ! names d)"
  shows "(\<forall>a. map_of (hd dat_list) v = Some a \<longrightarrow>
            (\<exists>c. map_of cdat v = Some c \<and> c < length (arrays w')
               \<and> arrays w' ! c = arrays w ! a))
       \<and> (\<forall>c. map_of cdat v = Some c \<longrightarrow>
            (\<exists>a. map_of (hd dat_list) v = Some a \<and> a < length (arrays w)
               \<and> c < length (arrays w') \<and> arrays w' ! c = arrays w ! a))"
proof -
  from assms(1) obtain first rest cdat1 w1 w2 where dl: "dat_list = first # rest"
    and 1: "seed_cdat first [] w = (Inr cdat1, w1)"
    and 2: "concat_records promote_types dims rest cdat1 w1 = (Inr cdat, w2)"
    and 3: "reconcile_dims dims cdat [] w2 = (Inr cdims, w')"
    by (rule concat_granules_run)
  from assms(2) dl have dist: "distinct (map fst first)"
    and refs: "\<forall>(v, a) \<in> set first. a < length (arrays w)"
    by (simp_all add: valid_dat_def)
  have M: "\<forall>(v, a) \<in> set first. map_of first v = Some a \<and> a < length (arrays w)"
    using dist refs by auto
  have seeded: "\<forall>v c. map_of cdat1 v = Some c \<longrightarrow>
           c < length (arrays w1)
           \<and> (\<exists>a. map_of first v = Some a \<and> arrays w1 ! c = arrays w ! a)"
    by (rule seed_cdat_values [where ?M = "map_of first" and ?w0.0 = w and ?w = w
          and ?cdat = "[]", OF extends_refl M _ 1]) simp
  from seed_cdat_lists [OF 1] have "name_lists w1 = name_lists w" by simp
  with assms(3,4,5) have "skips w1 dims v" by (auto simp: skips_def)
  from concat_records_static [OF this 2] have same: "map_of cdat v = map_of cdat1 v" .
  from concat_records_frame [OF 2] reconcile_dims_frame [OF 3] have e: "extends w1 w'"
    by (rule extends_trans)
  have bwd: "\<exists>a. map_of first v = Some a \<and> a < length (arrays w)
               \<and> c < length (arrays w') \<and> arrays w' ! c = arrays w ! a"
    if "map_of cdat v = Some c" for c
  proof -
    from that same have "map_of cdat1 v = Some c" by simp
    with seeded obtain a where c1: "c < length (arrays w1)"
      and a: "map_of first v = Some a" and eq: "arrays w1 ! c = arrays w ! a"
      by blast
    from a have "(v, a) \<in> set first" by (rule map_of_SomeD)
    with refs have al: "a < length (arrays w)" by auto
    from c1 extends_arrays [OF e]
    have "c < length (arrays w')" "arrays w' ! c = arrays w1 ! c" by simp_all
    with a al eq show ?thesis by simp
  qed
  have fwd: "\<exists>c. map_of cdat v = Some c \<and> c < length (arrays w')
               \<and> arrays w' ! c = arrays w ! a"
    if "map_of first v = Some a" for a
  proof -
    from that have "(v, a) \<in> set first" by (rule map_of_SomeD)
    then have "v \<in> fst ` set first" by (rule rev_image_eqI) simp
    with seed_cdat_keys [OF 1] have "v \<in> fst ` set cdat1" by simp
    then obtain c where "map_of cdat1 v = Some c"
      by (cases "map_of cdat1 v") (auto simp: map_of_eq_None_iff)
    with same have c: "map_of cdat v = Some c" by simp
    from bwd [OF c] that c show ?thesis by auto
  qed
  from fwd bwd dl show ?thesis by simp
qed

lemma np_concatenate_extent:
  "np_concatenate p x y = Inr xy \<Longrightarrow>
     leading_extent xy = leading_extent x + leading_extent y"
  by (auto simp: np_concatenate_def leading_extent_def split: list.splits if_splits)

lemma seed_cdat_distinct:
  "distinct (map fst cdat) \<Longrightarrow> seed_cdat first cdat w = (Inr cdat', w') \<Longrightarrow>
     distinct (map fst cdat')"
proof (induction first arbitrary: cdat w)
  case Nil
  then show ?case by (simp add: py_return_def)
next
  case (Cons q rest)
  obtain v a where q: "q = (v, a)" by (cases q)
  show ?case
  proof (cases "a < length (arrays w)")
    case False
    from seed_cdat_stop [OF False] Cons.prems q show ?thesis by simp
  next
    case True
    from seed_cdat_step [OF True] Cons.prems q
    have "seed_cdat rest (AList.update v (length (arrays w)) cdat)
            (w\<lparr>arrays := arrays w @ [arrays w ! a]\<rparr>) = (Inr cdat', w')" by simp
    from Cons.IH [OF distinct_update [OF Cons.prems(1)] this] show ?thesis .
  qed
qed

lemma concat_variables_distinct:
  "distinct (map fst cdat) \<Longrightarrow> concat_variables p dims dat cdat w = (Inr cdat', w') \<Longrightarrow>
     distinct (map fst cdat')"
proof (induction dat arbitrary: cdat w)
  case Nil
  then show ?case by (simp add: py_return_def)
next
  case (Cons q rest)
  obtain v a where q: "q = (v, a)" by (cases q)
  consider (skip) "skips w dims v" | (join) xy where "joins p w dims cdat v a xy"
    | (stop) "\<not> skips w dims v" "\<forall>xy. \<not> joins p w dims cdat v a xy"
    by blast
  then show ?case
  proof cases
    case skip
    from concat_variables_skip [OF skip] Cons.prems q
    have "concat_variables p dims rest cdat w = (Inr cdat', w')" by simp
    from Cons.IH [OF Cons.prems(1) this] show ?thesis .
  next
    case join
    from concat_variables_join [OF join] Cons.prems q
    have "concat_variables p dims rest (AList.update v (length (arrays w)) cdat)
            (w\<lparr>arrays := arrays w @ [xy]\<rparr>) = (Inr cdat', w')" by simp
    from Cons.IH [OF distinct_update [OF Cons.prems(1)] this] show ?thesis .
  next
    case stop
    from concat_variables_stop [OF stop, of rest] Cons.prems q show ?thesis by auto
  qed
qed

lemma concat_records_distinct:
  "distinct (map fst cdat) \<Longrightarrow> concat_records p dims dats cdat w = (Inr cdat', w') \<Longrightarrow>
     distinct (map fst cdat')"
proof (induction dats arbitrary: cdat w)
  case Nil
  then show ?case by (simp add: py_return_def)
next
  case (Cons dat rest)
  obtain r1 w1 where 1: "concat_variables p dims dat cdat w = (r1, w1)"
    by (cases "concat_variables p dims dat cdat w")
  with Cons.prems(2) obtain cdat1 where r1: "r1 = Inr cdat1"
    and run: "concat_records p dims rest cdat1 w1 = (Inr cdat', w')"
    by (cases r1) (auto simp: then_do_def)
  from 1 r1 have "concat_variables p dims dat cdat w = (Inr cdat1, w1)" by simp
  from Cons.IH [OF concat_variables_distinct [OF Cons.prems(1) this] run] show ?case .
qed

lemma tracked_not_skips: "tracked w dims v \<Longrightarrow> \<not> skips w dims v"
  by (auto simp: tracked_def skips_def)

lemma track_extent_Cons:
  "track_extent w v ((v', a) # rest)
     = (if v' = v then leading_extent (arrays w ! a) else track_extent w v rest)"
  by (simp add: track_extent_def)

lemma track_extent_absent: "v \<notin> fst ` set rest \<Longrightarrow> track_extent w v rest = 0"
proof -
  assume "v \<notin> fst ` set rest"
  then have "map_of rest v = None" by (simp add: map_of_eq_None_iff)
  then show ?thesis by (simp add: track_extent_def)
qed

lemma concat_variables_extent:
  assumes "extends w0 w"
    and "distinct (map fst dat)" and "\<forall>(v, a) \<in> set dat. a < length (arrays w0)"
    and "tracked w dims v"
    and "has_extent w cdat v S"
    and "concat_variables p dims dat cdat w = (Inr cdat', w')"
  shows "has_extent w' cdat' v (S + track_extent w0 v dat)"
  using assms
proof (induction dat arbitrary: cdat w S)
  case Nil
  then show ?case by (simp add: py_return_def track_extent_def)
next
  case (Cons q rest)
  obtain v' a where q: "q = (v', a)" by (cases q)
  from Cons.prems(2,3) q have dr: "distinct (map fst rest)"
    and rr: "\<forall>(v, a) \<in> set rest. a < length (arrays w0)"
    and a0: "a < length (arrays w0)" and fresh: "v' \<notin> fst ` set rest"
    by auto
  consider (skip) "skips w dims v'" | (join) xy where "joins p w dims cdat v' a xy"
    | (stop) "\<not> skips w dims v'" "\<forall>xy. \<not> joins p w dims cdat v' a xy"
    by blast
  then show ?case
  proof cases
    case skip
    with Cons.prems(4) have ne: "v' \<noteq> v" using tracked_not_skips by blast
    from concat_variables_skip [OF skip] Cons.prems(6) q
    have "concat_variables p dims rest cdat w = (Inr cdat', w')" by simp
    from Cons.IH [OF Cons.prems(1) dr rr Cons.prems(4,5) this] ne q
    show ?thesis by (simp add: track_extent_Cons)
  next
    case join
    let ?w1 = "w\<lparr>arrays := arrays w @ [xy]\<rparr>"
    let ?cdat1 = "AList.update v' (length (arrays w)) cdat"
    from concat_variables_join [OF join] Cons.prems(6) q
    have run: "concat_variables p dims rest ?cdat1 ?w1 = (Inr cdat', w')" by simp
    have e1: "extends w0 ?w1"
      using Cons.prems(1) extends_new_array [of w] by (blast intro: extends_trans)
    from Cons.prems(4) have t1: "tracked ?w1 dims v" by (simp add: tracked_def)
    show ?thesis
    proof (cases "v' = v")
      case True
      from join obtain c where c: "map_of cdat v' = Some c" and cl: "c < length (arrays w)"
        and al: "a < length (arrays w)"
        and xy: "np_concatenate p (arrays w ! c) (arrays w ! a) = Inr xy"
        by (auto simp: joins_def)
      from Cons.prems(5) True c have "leading_extent (arrays w ! c) = S"
        by (simp add: has_extent_def)
      moreover from extends_arrays [OF Cons.prems(1)] a0
      have "arrays w ! a = arrays w0 ! a" by simp
      ultimately have le: "leading_extent xy = S + leading_extent (arrays w0 ! a)"
        using np_concatenate_extent [OF xy] by simp
      have inv: "has_extent ?w1 ?cdat1 v (S + leading_extent (arrays w0 ! a))"
        using True le by (simp add: has_extent_def update_conv')
      from Cons.IH [OF e1 dr rr t1 inv run] True q fresh
      show ?thesis by (simp add: track_extent_Cons track_extent_absent)
    next
      case False
      have inv: "has_extent ?w1 ?cdat1 v S"
        using False Cons.prems(5) by (auto simp: has_extent_def update_conv' nth_append)
      from Cons.IH [OF e1 dr rr t1 inv run] False q
      show ?thesis by (simp add: track_extent_Cons)
    qed
  next
    case stop
    from concat_variables_stop [OF stop, of rest] Cons.prems(6) q show ?thesis by auto
  qed
qed

lemma concat_records_extent:
  assumes "extends w0 w"
    and "\<forall>dat \<in> set dats. valid_dat w0 dat"
    and "tracked w dims v"
    and "has_extent w cdat v S"
    and "concat_records p dims dats cdat w = (Inr cdat', w')"
  shows "has_extent w' cdat' v (S + (\<Sum>dat\<leftarrow>dats. track_extent w0 v dat))"
  using assms
proof (induction dats arbitrary: cdat w S)
  case Nil
  then show ?case by (simp add: py_return_def)
next
  case (Cons dat rest)
  obtain r1 w1 where 1: "concat_variables p dims dat cdat w = (r1, w1)"
    by (cases "concat_variables p dims dat cdat w")
  with Cons.prems(5) obtain cdat1 where r1: "r1 = Inr cdat1"
    and run: "concat_records p dims rest cdat1 w1 = (Inr cdat', w')"
    by (cases r1) (auto simp: then_do_def)
  from 1 r1 have run1: "concat_variables p dims dat cdat w = (Inr cdat1, w1)" by simp
  from Cons.prems(2) have vd: "distinct (map fst dat)"
    "\<forall>(v, a) \<in> set dat. a < length (arrays w0)"
    and vr: "\<forall>dat \<in> set rest. valid_dat w0 dat"
    by (simp_all add: valid_dat_def)
  from concat_variables_extent [OF Cons.prems(1) vd Cons.prems(3,4) run1]
  have inv: "has_extent w1 cdat1 v (S + track_extent w0 v dat)" .
  from concat_variables_frame [OF 1] Cons.prems(1) have e1: "extends w0 w1"
    by (blast intro: extends_trans)
  from concat_variables_lists [OF 1] Cons.prems(3) have t1: "tracked w1 dims v"
    by (simp add: tracked_def)
  from Cons.IH [OF e1 vr t1 inv run] show ?case by (simp add: add.assoc)
qed

lemma reconcile_dims_cases:
  assumes "reconcile_dims dims ((v, c) # rest) cdims w = (Inr cdims', w')"
  obtains d ks where "map_of dims v = Some d"
    and "names d < length (name_lists w)" and "sizes d < length (size_lists w)"
    and "reconcile_dims dims rest
           (AList.update v \<lparr>names = length (name_lists w), sizes = length (size_lists w)\<rparr> cdims)
           (w\<lparr>name_lists := name_lists w @ [name_lists w ! names d],
              size_lists := size_lists w @ [ks]\<rparr>) = (Inr cdims', w')"
    and "name_lists w ! names d \<noteq> [] \<and> hd (name_lists w ! names d) = ''atrack'' \<longrightarrow>
           c < length (arrays w)
           \<and> ks = leading_extent (arrays w ! c) # tl (size_lists w ! sizes d)"
proof -
  let ?stop = "map_of dims v = None
         \<or> (\<exists>d. map_of dims v = Some d \<and>
              (\<not> names d < length (name_lists w) \<or> \<not> sizes d < length (size_lists w)
               \<or> (name_lists w ! names d \<noteq> [] \<and> hd (name_lists w ! names d) = ''atrack''
                   \<and> (\<not> c < length (arrays w) \<or> shape (arrays w ! c) = []
                       \<or> size_lists w ! sizes d = []))))"
  have ns: "\<not> ?stop"
  proof
    assume ?stop
    from reconcile_dims_stop [OF this, of rest cdims] assms show False by auto
  qed
  then obtain d where d: "map_of dims v = Some d"
    and n: "names d < length (name_lists w)" and z: "sizes d < length (size_lists w)"
    by auto
  show thesis
  proof (cases "name_lists w ! names d \<noteq> [] \<and> hd (name_lists w ! names d) = ''atrack''")
    case plain: False
    from reconcile_dims_plain [OF d n z plain, of c rest cdims] assms
    have "reconcile_dims dims rest
           (AList.update v \<lparr>names = length (name_lists w), sizes = length (size_lists w)\<rparr> cdims)
           (w\<lparr>name_lists := name_lists w @ [name_lists w ! names d],
              size_lists := size_lists w @ [size_lists w ! sizes d]\<rparr>) = (Inr cdims', w')"
      by simp
    from that [OF d n z this] plain show thesis by blast
  next
    case track: True
    with ns d n z obtain m sh k ks where
      c: "c < length (arrays w)" and sh: "shape (arrays w ! c) = m # sh"
      and ks: "size_lists w ! sizes d = k # ks"
      by (cases "shape (arrays w ! c)"; cases "size_lists w ! sizes d") auto
    from track have t1: "name_lists w ! names d \<noteq> []"
      and t2: "hd (name_lists w ! names d) = ''atrack''" by simp_all
    from sh ks have "m # ks = leading_extent (arrays w ! c) # tl (size_lists w ! sizes d)"
      by (simp add: leading_extent_def)
    moreover from reconcile_dims_track [OF d n z t1 t2 c sh ks, of rest cdims] assms
    have "reconcile_dims dims rest
           (AList.update v \<lparr>names = length (name_lists w), sizes = length (size_lists w)\<rparr> cdims)
           (w\<lparr>name_lists := name_lists w @ [name_lists w ! names d],
              size_lists := size_lists w @ [m # ks]\<rparr>) = (Inr cdims', w')"
      by simp
    ultimately show thesis using that [OF d n z, of "m # ks"] c by blast
  qed
qed

lemma reconcile_dims_keeps:
  assumes "v \<notin> fst ` set vars"
    and "reconcile_dims dims vars cdims w = (Inr cdims', w')"
  shows "map_of cdims' v = map_of cdims v"
  using assms
proof (induction vars arbitrary: cdims w)
  case Nil
  then show ?case by (simp add: py_return_def)
next
  case (Cons q rest)
  obtain v' c where q: "q = (v', c)" by (cases q)
  with Cons.prems(1) have ne: "v' \<noteq> v" and nr: "v \<notin> fst ` set rest" by auto
  from Cons.prems(2) q
  have "reconcile_dims dims ((v', c) # rest) cdims w = (Inr cdims', w')" by simp
  then obtain d ks where "map_of dims v' = Some d"
    and "names d < length (name_lists w)" and "sizes d < length (size_lists w)"
    and run: "reconcile_dims dims rest
           (AList.update v' \<lparr>names = length (name_lists w), sizes = length (size_lists w)\<rparr> cdims)
           (w\<lparr>name_lists := name_lists w @ [name_lists w ! names d],
              size_lists := size_lists w @ [ks]\<rparr>) = (Inr cdims', w')"
    and "name_lists w ! names d \<noteq> [] \<and> hd (name_lists w ! names d) = ''atrack'' \<longrightarrow>
           c < length (arrays w)
           \<and> ks = leading_extent (arrays w ! c) # tl (size_lists w ! sizes d)"
    by (rule reconcile_dims_cases)
  from Cons.IH [OF nr run] ne show ?case by (simp add: update_conv')
qed

lemma reconcile_dims_entry:
  assumes "distinct (map fst vars)" and "(v, c) \<in> set vars"
    and "extends w0 w"
    and "map_of dims v = Some d"
    and "names d < length (name_lists w0)" and "sizes d < length (size_lists w0)"
    and "name_lists w0 ! names d \<noteq> []" and "hd (name_lists w0 ! names d) = ''atrack''"
    and "reconcile_dims dims vars cdims w = (Inr cdims', w')"
  shows "\<exists>cd. map_of cdims' v = Some cd
           \<and> names cd < length (name_lists w') \<and> sizes cd < length (size_lists w')
           \<and> name_lists w' ! names cd = name_lists w0 ! names d
           \<and> size_lists w' ! sizes cd
               = leading_extent (arrays w ! c) # tl (size_lists w0 ! sizes d)"
  using assms
proof (induction vars arbitrary: cdims w)
  case Nil
  then show ?case by simp
next
  case (Cons q rest)
  obtain v' c' where q: "q = (v', c')" by (cases q)
  from Cons.prems(9) q
  have "reconcile_dims dims ((v', c') # rest) cdims w = (Inr cdims', w')" by simp
  then obtain d' ks where d': "map_of dims v' = Some d'"
    and n': "names d' < length (name_lists w)" and z': "sizes d' < length (size_lists w)"
    and run: "reconcile_dims dims rest
           (AList.update v' \<lparr>names = length (name_lists w), sizes = length (size_lists w)\<rparr> cdims)
           (w\<lparr>name_lists := name_lists w @ [name_lists w ! names d'],
              size_lists := size_lists w @ [ks]\<rparr>) = (Inr cdims', w')"
    and tr: "name_lists w ! names d' \<noteq> [] \<and> hd (name_lists w ! names d') = ''atrack'' \<longrightarrow>
           c' < length (arrays w)
           \<and> ks = leading_extent (arrays w ! c') # tl (size_lists w ! sizes d')"
    by (rule reconcile_dims_cases)
  let ?w1 = "w\<lparr>name_lists := name_lists w @ [name_lists w ! names d'],
              size_lists := size_lists w @ [ks]\<rparr>"
  let ?cdims1 = "AList.update v' \<lparr>names = length (name_lists w), sizes = length (size_lists w)\<rparr> cdims"
  have e1: "extends w ?w1" by (simp add: extends_def)
  show ?case
  proof (cases "v' = v")
    case True
    with Cons.prems(1,2) q have cc: "c' = c" and nr: "v \<notin> fst ` set rest"
      by (auto simp: rev_image_eqI)
    from True d' Cons.prems(4) have dd: "d' = d" by simp
    from extends_name_lists [OF Cons.prems(3)] Cons.prems(5)
    have nl: "name_lists w ! names d = name_lists w0 ! names d" by simp
    from extends_size_lists [OF Cons.prems(3)] Cons.prems(6)
    have sl: "size_lists w ! sizes d = size_lists w0 ! sizes d" by simp
    from tr dd cc nl sl Cons.prems(7,8)
    have ks: "ks = leading_extent (arrays w ! c) # tl (size_lists w0 ! sizes d)" by simp
    from reconcile_dims_keeps [OF nr run] True
    have m: "map_of cdims' v
               = Some \<lparr>names = length (name_lists w), sizes = length (size_lists w)\<rparr>"
      by (simp add: update_conv')
    from reconcile_dims_frame [OF run] have e: "extends ?w1 w'" .
    from extends_name_lists [OF e]
    have "name_lists w' ! length (name_lists w) = name_lists ?w1 ! length (name_lists w)"
      by simp
    with dd nl have a: "name_lists w' ! length (name_lists w) = name_lists w0 ! names d"
      by simp
    from extends_size_lists [OF e]
    have "size_lists w' ! length (size_lists w) = size_lists ?w1 ! length (size_lists w)"
      by simp
    with ks have b: "size_lists w' ! length (size_lists w)
                       = leading_extent (arrays w ! c) # tl (size_lists w0 ! sizes d)"
      by simp
    from extends_name_lists [OF e] extends_size_lists [OF e]
    have "length (name_lists w) < length (name_lists w')"
      and "length (size_lists w) < length (size_lists w')"
      by simp_all
    with m a b show ?thesis by simp
  next
    case False
    with Cons.prems(1,2) q have dr: "distinct (map fst rest)" and mem: "(v, c) \<in> set rest"
      by auto
    from Cons.prems(3) e1 have e01: "extends w0 ?w1" by (rule extends_trans)
    from Cons.IH [OF dr mem e01 Cons.prems(4,5,6,7,8) run] show ?thesis by simp
  qed
qed

text \<open>
  C5: when \<^verbatim>\<open>concat_granules\<close> returns, a variable of the first record whose leading
  dimension is \<^verbatim>\<open>'atrack'\<close> has a reconciled descriptor, and the reconciled descriptor of
  such a variable designates lists of the store after the call: its names are those of
  the input descriptor, and its sizes are those of the input descriptor with element 0
  replaced by the sum, over all input records, of the leading extent of that variable's
  array.  The records are dictionaries (distinct keys) whose references designate arrays
  of the store.
\<close>

theorem concat_granules_track_size:
  assumes "concat_granules promote_types dat_list dims w = (Inr (cdat, cdims), w')"
    and "\<forall>dat \<in> set dat_list. valid_dat w dat"
    and "map_of dims v = Some d"
    and "names d < length (name_lists w)" and "sizes d < length (size_lists w)"
    and "name_lists w ! names d \<noteq> []" and "hd (name_lists w ! names d) = ''atrack''"
  shows "(\<forall>a. map_of (hd dat_list) v = Some a \<longrightarrow> (\<exists>cd. map_of cdims v = Some cd))
       \<and> (\<forall>cd. map_of cdims v = Some cd \<longrightarrow>
            names cd < length (name_lists w') \<and> sizes cd < length (size_lists w')
            \<and> name_lists w' ! names cd = name_lists w ! names d
            \<and> size_lists w' ! sizes cd
                = (\<Sum>dat\<leftarrow>dat_list. track_extent w v dat) # tl (size_lists w ! sizes d))"
proof -
  from assms(1) obtain first rest cdat1 w1 w2 where dl: "dat_list = first # rest"
    and 1: "seed_cdat first [] w = (Inr cdat1, w1)"
    and 2: "concat_records promote_types dims rest cdat1 w1 = (Inr cdat, w2)"
    and 3: "reconcile_dims dims cdat [] w2 = (Inr cdims, w')"
    by (rule concat_granules_run)
  from assms(2) dl have dist: "distinct (map fst first)"
    and refs: "\<forall>(v, a) \<in> set first. a < length (arrays w)"
    and vr: "\<forall>dat \<in> set rest. valid_dat w dat"
    by (simp_all add: valid_dat_def)
  have M: "\<forall>(v, a) \<in> set first. map_of first v = Some a \<and> a < length (arrays w)"
    using dist refs by auto
  have seeded: "\<forall>v c. map_of cdat1 v = Some c \<longrightarrow>
           c < length (arrays w1)
           \<and> (\<exists>a. map_of first v = Some a \<and> arrays w1 ! c = arrays w ! a)"
    by (rule seed_cdat_values [where ?M = "map_of first" and ?w0.0 = w and ?w = w
          and ?cdat = "[]", OF extends_refl M _ 1]) simp
  have inv1: "has_extent w1 cdat1 v (track_extent w v first)"
    unfolding has_extent_def
  proof (intro allI impI)
    fix c assume "map_of cdat1 v = Some c"
    with seeded obtain a where "c < length (arrays w1)" "map_of first v = Some a"
      "arrays w1 ! c = arrays w ! a" by blast
    then show "c < length (arrays w1)
        \<and> leading_extent (arrays w1 ! c) = track_extent w v first"
      by (simp add: track_extent_def)
  qed
  from seed_cdat_frame [OF 1] have e1: "extends w w1" .
  from assms(6) have "''atrack'' \<in> set (name_lists w ! names d)"
    using assms(7) hd_in_set by fastforce
  with seed_cdat_lists [OF 1] assms(3,4) have t1: "tracked w1 dims v"
    by (auto simp: tracked_def)
  from concat_records_extent [OF e1 vr t1 inv1 2] dl
  have inv2: "has_extent w2 cdat v (\<Sum>dat\<leftarrow>dat_list. track_extent w v dat)" by simp
  have dc: "distinct (map fst cdat)"
    using seed_cdat_distinct [OF _ 1] concat_records_distinct [OF _ 2] by simp
  from concat_records_frame [OF 2] e1 have e2: "extends w w2" by (blast intro: extends_trans)
  have entry: "\<exists>cd. map_of cdims v = Some cd
           \<and> names cd < length (name_lists w') \<and> sizes cd < length (size_lists w')
           \<and> name_lists w' ! names cd = name_lists w ! names d
           \<and> size_lists w' ! sizes cd
               = (\<Sum>dat\<leftarrow>dat_list. track_extent w v dat) # tl (size_lists w ! sizes d)"
    if "v \<in> fst ` set cdat"
  proof -
    from that obtain c where mem: "(v, c) \<in> set cdat" by auto
    with dc have mc: "map_of cdat v = Some c" by simp
    from inv2 mc
    have "leading_extent (arrays w2 ! c) = (\<Sum>dat\<leftarrow>dat_list. track_extent w v dat)"
      by (simp add: has_extent_def)
    with reconcile_dims_entry [OF dc mem e2 assms(3,4,5,6,7) 3] show ?thesis by simp
  qed
  have fwd: "\<exists>cd. map_of cdims v = Some cd" if "map_of first v = Some a" for a
  proof -
    from that have "(v, a) \<in> set first" by (rule map_of_SomeD)
    then have "v \<in> fst ` set first" by (rule rev_image_eqI) simp
    with seed_cdat_keys [OF 1] concat_records_keys [OF 2] have "v \<in> fst ` set cdat" by simp
    from entry [OF this] show ?thesis by blast
  qed
  have bwd: "names cd < length (name_lists w') \<and> sizes cd < length (size_lists w')
            \<and> name_lists w' ! names cd = name_lists w ! names d
            \<and> size_lists w' ! sizes cd
                = (\<Sum>dat\<leftarrow>dat_list. track_extent w v dat) # tl (size_lists w ! sizes d)"
    if "map_of cdims v = Some cd" for cd
  proof -
    have "v \<in> fst ` set cdat"
    proof (rule ccontr)
      assume "v \<notin> fst ` set cdat"
      from reconcile_dims_keeps [OF this 3] that show False by simp
    qed
    from entry [OF this] that show ?thesis by auto
  qed
  from fwd bwd dl show ?thesis by simp
qed

lemma concat_granules_sample:
  "concat_granules (\<lambda>a b. a) sample_dat_list sample_dims sample_world
   = (Inr ([(''lat'', 8), (''land_frac'', 7)],
           [(''lat'', \<lparr>names = 2, sizes = 2\<rparr>), (''land_frac'', \<lparr>names = 3, sizes = 3\<rparr>)]),
      sample_aggregate)"
  by (simp add: concat_granules_def sample_dat_list_def sample_dims_def sample_world_def
      sample_aggregate_def seed_cdat.simps concat_variables.simps reconcile_dims.simps
      step_defs np_concatenate_def)

theorem concat_granules_frame_witness:
  "concat_granules (\<lambda>a b. a) sample_dat_list sample_dims sample_world
   = (Inr ([(''lat'', 8), (''land_frac'', 7)],
           [(''lat'', \<lparr>names = 2, sizes = 2\<rparr>), (''land_frac'', \<lparr>names = 3, sizes = 3\<rparr>)]),
      sample_aggregate)
   \<and> arrays sample_aggregate ! 0 = arrays sample_world ! 0
   \<and> arrays sample_aggregate ! 2 = arrays sample_world ! 2
   \<and> name_lists sample_aggregate ! 0 = name_lists sample_world ! 0
   \<and> size_lists sample_aggregate ! 0 = size_lists sample_world ! 0
   \<and> length (arrays sample_world) \<le> 8 \<and> length (arrays sample_world) \<le> 7
   \<and> length (size_lists sample_world) \<le> 2"
proof -
  have len: "0 < length (arrays sample_world)" "2 < length (arrays sample_world)"
    "0 < length (name_lists sample_world)" "0 < length (size_lists sample_world)"
    by (simp_all add: sample_world_def)
  from concat_granules_frame [OF concat_granules_sample] len
  have "arrays sample_aggregate ! 0 = arrays sample_world ! 0"
    and "arrays sample_aggregate ! 2 = arrays sample_world ! 2"
    and "name_lists sample_aggregate ! 0 = name_lists sample_world ! 0"
    and "size_lists sample_aggregate ! 0 = size_lists sample_world ! 0"
    by blast+
  moreover from concat_granules_frame [OF concat_granules_sample]
  have "length (arrays sample_world) \<le> 8" "length (arrays sample_world) \<le> 7"
    "length (size_lists sample_world) \<le> 2"
    by simp_all
  ultimately show ?thesis using concat_granules_sample by simp
qed

theorem concat_granules_static_witness:
  "concat_granules (\<lambda>a b. a) sample_dat_list sample_dims sample_world
   = (Inr ([(''lat'', 8), (''land_frac'', 7)],
           [(''lat'', \<lparr>names = 2, sizes = 2\<rparr>), (''land_frac'', \<lparr>names = 3, sizes = 3\<rparr>)]),
      sample_aggregate)
   \<and> valid_dat sample_world (hd sample_dat_list)
   \<and> map_of sample_dims ''land_frac'' = Some \<lparr>names = 1, sizes = 1\<rparr>
   \<and> 1 < length (name_lists sample_world)
   \<and> ''atrack'' \<notin> set (name_lists sample_world ! 1)
   \<and> map_of (hd sample_dat_list) ''land_frac'' = Some 1
   \<and> map_of [(''lat'', 8 :: nat), (''land_frac'', 7)] ''land_frac'' = Some 7
   \<and> 7 < length (arrays sample_aggregate)
   \<and> arrays sample_aggregate ! 7 = arrays sample_world ! 1"
proof -
  have v: "valid_dat sample_world (hd sample_dat_list)"
    by (simp add: valid_dat_def sample_world_def sample_dat_list_def)
  have d: "map_of sample_dims ''land_frac'' = Some \<lparr>names = 1, sizes = 1\<rparr>"
    by (simp add: sample_dims_def)
  have n: "names \<lparr>names = 1, sizes = 1\<rparr> < length (name_lists sample_world)"
    by (simp add: sample_world_def)
  have s: "''atrack'' \<notin> set (name_lists sample_world ! names \<lparr>names = 1, sizes = 1\<rparr>)"
    by (simp add: sample_world_def)
  have c: "map_of [(''lat'', 8 :: nat), (''land_frac'', 7)] ''land_frac'' = Some 7"
    by simp
  have f: "map_of (hd sample_dat_list) ''land_frac'' = Some 1"
    by (simp add: sample_dat_list_def)
  note inst = concat_granules_static [OF concat_granules_sample v d n s]
  from inst [THEN conjunct1, THEN spec, THEN mp, OF f] c
  have r: "7 < length (arrays sample_aggregate)"
    "arrays sample_aggregate ! 7 = arrays sample_world ! 1"
    by auto
  show ?thesis
    apply (intro conjI)
            apply (rule concat_granules_sample)
           apply (rule v)
          apply (rule d)
         apply (use n in simp)
        apply (use s in simp)
       apply (rule f)
      apply (rule c)
     apply (rule r(1))
    apply (rule r(2))
    done
qed

theorem concat_granules_track_size_witness:
  "concat_granules (\<lambda>a b. a) sample_dat_list sample_dims sample_world
   = (Inr ([(''lat'', 8), (''land_frac'', 7)],
           [(''lat'', \<lparr>names = 2, sizes = 2\<rparr>), (''land_frac'', \<lparr>names = 3, sizes = 3\<rparr>)]),
      sample_aggregate)
   \<and> list_all (valid_dat sample_world) sample_dat_list
   \<and> map_of sample_dims ''lat'' = Some \<lparr>names = 0, sizes = 0\<rparr>
   \<and> name_lists sample_world ! 0 = [''atrack'']
   \<and> size_lists sample_world ! 0 = [3]
   \<and> map_of (hd sample_dat_list) ''lat'' = Some 0
   \<and> map_of [(''lat'', \<lparr>names = 2, sizes = 2\<rparr>), (''land_frac'', \<lparr>names = 3, sizes = 3\<rparr>)]
        ''lat'' = Some \<lparr>names = 2, sizes = 2\<rparr>
   \<and> name_lists sample_aggregate ! 2 = [''atrack'']
   \<and> size_lists sample_aggregate ! 2 = [2 + 3]"
proof -
  have v: "\<forall>dat \<in> set sample_dat_list. valid_dat sample_world dat"
    by (simp add: valid_dat_def sample_world_def sample_dat_list_def)
  have d: "map_of sample_dims ''lat'' = Some \<lparr>names = 0, sizes = 0\<rparr>"
    by (simp add: sample_dims_def)
  have n: "names \<lparr>names = 0, sizes = 0\<rparr> < length (name_lists sample_world)"
    and z: "sizes \<lparr>names = 0, sizes = 0\<rparr> < length (size_lists sample_world)"
    and ne: "name_lists sample_world ! names \<lparr>names = 0, sizes = 0\<rparr> \<noteq> []"
    and h: "hd (name_lists sample_world ! names \<lparr>names = 0, sizes = 0\<rparr>) = ''atrack''"
    by (simp_all add: sample_world_def)
  have nl: "name_lists sample_world ! 0 = [''atrack'']"
    and sl: "size_lists sample_world ! 0 = [3]"
    by (simp_all add: sample_world_def)
  have f: "map_of (hd sample_dat_list) ''lat'' = Some 0"
    by (simp add: sample_dat_list_def)
  have c: "map_of [(''lat'', \<lparr>names = 2, sizes = 2\<rparr>), (''land_frac'', \<lparr>names = 3, sizes = 3\<rparr>)]
             ''lat'' = Some \<lparr>names = 2 :: nat, sizes = 2 :: nat\<rparr>"
    by simp
  have sum: "(\<Sum>dat\<leftarrow>sample_dat_list. track_extent sample_world ''lat'' dat) = 2 + 3"
    by (simp add: sample_dat_list_def track_extent_def leading_extent_def sample_world_def)
  note inst = concat_granules_track_size [OF concat_granules_sample v d n z ne h]
  from inst [THEN conjunct2, THEN spec, THEN mp, OF c] sum nl sl
  have r: "name_lists sample_aggregate ! 2 = [''atrack'']"
    "size_lists sample_aggregate ! 2 = [2 + 3]"
    by simp_all
  have va: "list_all (valid_dat sample_world) sample_dat_list"
    using v by (simp add: list_all_iff)
  show ?thesis
    apply (intro conjI)
            apply (rule concat_granules_sample)
           apply (rule va)
          apply (rule d)
         apply (rule nl)
        apply (rule sl)
       apply (rule f)
      apply (rule c)
     apply (rule r(1))
    apply (rule r(2))
    done
qed

section \<open>Properties of the orchestrator and the driver\<close>

lemmas run_defs = then_do_def lift_def py_return_def py_raise_def dict_get_def
  read_array_def read_names_def read_sizes_def new_names_def new_sizes_def new_array_def
  write_sizes_def write_names_def py_index_def and_then_def log_event_def nc_do_def
  open_for_write_def calls_on_def os_remove_def accepts_all_def

text \<open>
  C4, as the specification states it, fails: \<^verbatim>\<open>run_subagg\<close> never tests the output path.
  Invoked for a day whose output file exists and is readable, it queries the catalog,
  opens and reads the granule, and writes the output file again.
\<close>

theorem run_subagg_existing_output_counterexample:
  "''out.nc'' \<in> readable (empty_world\<lparr>readable := {''out.nc''}\<rparr>)
   \<and> map_option (\<lambda>(r, w'). (r, trace w'))
        (run_subagg 0 sample_env 2015 8 ''snpp-normal'' [''lat''] ''out.nc'' False ''tmp''
           (empty_world\<lparr>readable := {''out.nc''}\<rparr>))
     = Some (Inr (),
             [EvSearch ''SNDRSNIML2CCPRETN'' 2015 8, EvOpen, EvRead ''g001'',
              EvDatasetMemory, EvClose ''g001'', EvDatasetWrite ''out.nc''])"
  by (simp add: run_subagg_def sample_env_def sample_dataset_def empty_world_def
      get_climcaps_short_name_def get_granule_list_def trim_at_def py_pop_def
      aggregate_and_write_def load_granule_from_s3_def load_from_netCDF4_def
      nc_getitem_def dimension_size_def concat_granules_def write_cdat_def
      output_dtype_def first_element_def run_defs Let_def
      seed_cdat.simps concat_variables.simps reconcile_dims.simps)

lemma then_do_InrE:
  assumes "then_do m f w = (Inr y, w')"
  obtains x w1 where "m w = (Inr x, w1)" and "f x w1 = (Inr y, w')"
proof -
  obtain r w1 where m: "m w = (r, w1)" by (cases "m w")
  with assms obtain x where "r = Inr x" by (cases r) (auto simp: then_do_def)
  with m assms that show thesis by (auto simp: then_do_def)
qed

lemma write_cdat_readable:
  assumes "write_cdat lib cdat dims attrs fname w = (Inr u, w')"
  shows "fname \<in> readable w'"
proof -
  from assms obtain m w1 where "merge_dims dims [] w = (Inr m, w1)"
    and 1: "then_do (open_for_write lib fname) (\<lambda>u.
              then_do (create_dimensions lib fname m) (\<lambda>u.
                write_variables lib fname cdat dims attrs)) w1 = (Inr u, w')"
    unfolding write_cdat_def by (rule then_do_InrE)
  from 1 have o: "open_error lib fname = None"
    by (cases "open_error lib fname") (simp_all add: then_do_def open_for_write_def)
  with 1 have "then_do (do_calls lib fname (dimension_calls m)) (\<lambda>u.
                write_variables lib fname cdat dims attrs) (opened fname w1) = (Inr u, w')"
    by (simp add: then_do_def open_for_write_def opened_def create_dimensions_do_calls)
  then obtain x w3 where 3: "do_calls lib fname (dimension_calls m) (opened fname w1) = (Inr x, w3)"
    and 4: "write_variables lib fname cdat dims attrs w3 = (Inr u, w')"
    by (rule then_do_InrE)
  from do_calls_effect [of lib fname "dimension_calls m" "opened fname w1"] 3
  have s3: "same_store (opened fname w1) w3" by auto
  let ?P = "write_plan lib (arrays w3) (name_lists w3) dims attrs cdat"
  from 4 have "then_do (do_calls lib fname (snd ?P)) (\<lambda>u. lift (fst ?P)) w3 = (Inr u, w')"
    by (simp add: write_variables_plan [symmetric])
  then obtain y w4 where 5: "do_calls lib fname (snd ?P) w3 = (Inr y, w4)"
    and 6: "lift (fst ?P) w4 = (Inr u, w')"
    by (rule then_do_InrE)
  from do_calls_effect [of lib fname "snd ?P" w3] 5
  have s4: "same_store w3 w4" by auto
  from 6 have "w' = w4" by (simp add: lift_def)
  with s3 s4 show ?thesis by (simp add: same_store_def opened_def)
qed

lemma aggregate_and_write_readable:
  assumes "aggregate_and_write env dat_list latest output_file w = (Inr u, w')"
  shows "output_file \<in> readable w'"
proof (cases latest)
  case None
  with assms show ?thesis by (simp add: aggregate_and_write_def py_raise_def)
next
  case (Some p)
  obtain dims attrs where p: "p = (dims, attrs)" by (cases p)
  from assms Some p obtain x w1 where
    "(case x of (cdat, cdims) \<Rightarrow> write_cdat (nc_writer env) cdat cdims attrs output_file) w1
       = (Inr u, w')"
    unfolding aggregate_and_write_def by (auto elim: then_do_InrE)
  then show ?thesis by (cases x) (auto dest: write_cdat_readable)
qed

lemma run_subagg_readable:
  assumes "run_subagg fuel env year doy platform var_list output_file local_download tmp_dir w
             = Some (Inr u, w')"
    and "get_climcaps_short_name platform = Inr short_name"
    and "and_then (ea_search_data env short_name year doy)
           (get_granule_list (window_ymd env year doy)) = Inr granule_list"
    and "granule_list \<noteq> []"
  shows "output_file \<in> readable w'"
proof (cases local_download)
  case True
  let ?w1 = "w\<lparr>trace := trace w @ [EvSearch short_name year doy]\<rparr>"
  obtain r n where dl: "earthaccess_download fuel (ea_download env) granule_list tmp_dir
                          = Some (r, n)"
    using assms True
    by (cases "earthaccess_download fuel (ea_download env) granule_list tmp_dir")
       (auto simp: run_subagg_def Let_def)
  let ?w2 = "?w1\<lparr>trace := trace ?w1 @ EvMkdir tmp_dir # replicate n (EvDownload tmp_dir)\<rparr>"
  from assms True dl obtain paths where r: "r = Inr paths"
    by (cases r) (auto simp: run_subagg_def Let_def)
  from assms True dl r
  have "then_do (load_files (nc_open_file env) paths var_list [] None)
          (\<lambda>(dat_list, latest). aggregate_and_write env dat_list latest output_file)
          (?w2\<lparr>readable := readable ?w2 \<union> set paths\<rparr>) = (Inr u, w')"
    by (simp add: run_subagg_def Let_def)
  then obtain x w3 where
    "(case x of (dat_list, latest) \<Rightarrow> aggregate_and_write env dat_list latest output_file) w3
       = (Inr u, w')"
    by (rule then_do_InrE)
  then show ?thesis by (cases x) (auto dest: aggregate_and_write_readable)
next
  case False
  let ?w1 = "w\<lparr>trace := trace w @ [EvSearch short_name year doy]\<rparr>"
  from assms False
  have "then_do (log_event EvOpen) (\<lambda>u.
        then_do (lift (ea_open env granule_list)) (\<lambda>s3_objs.
        then_do (load_s3_objs (nc_open_memory env) s3_objs var_list [] None)
          (\<lambda>(dat_list, latest). aggregate_and_write env dat_list latest output_file))) ?w1
        = (Inr u, w')"
    by (simp add: run_subagg_def Let_def)
  then obtain u1 wa where
    "then_do (lift (ea_open env granule_list)) (\<lambda>s3_objs.
        then_do (load_s3_objs (nc_open_memory env) s3_objs var_list [] None)
          (\<lambda>(dat_list, latest). aggregate_and_write env dat_list latest output_file)) wa
        = (Inr u, w')"
    by (rule then_do_InrE)
  then obtain s3_objs wb where
    "then_do (load_s3_objs (nc_open_memory env) s3_objs var_list [] None)
          (\<lambda>(dat_list, latest). aggregate_and_write env dat_list latest output_file) wb
        = (Inr u, w')"
    by (rule then_do_InrE)
  then obtain x wc where
    "(case x of (dat_list, latest) \<Rightarrow> aggregate_and_write env dat_list latest output_file) wc
       = (Inr u, w')"
    by (rule then_do_InrE)
  then show ?thesis by (cases x) (auto dest: aggregate_and_write_readable)
qed

text \<open>
  C4 (amended): the skip is made by the driver loop.  When the day's output path is
  readable, the loop body logs the skip message and does nothing else: \<^verbatim>\<open>run_subagg\<close> is
  not called, so there is no catalog query, no download or remote read, no load and no
  write, and the world is otherwise unchanged.  Hence after a pass of the loop body that
  completed for a day with a non-empty granule list, and so wrote the output file, a
  second pass over that day is such a skip.
\<close>

theorem production_day_skips:
  "(output_file_name short_name year doy \<in> readable w \<longrightarrow>
      production_day fuel env platform short_name year var_list doy w
        = Some (Inr (), w\<lparr>trace := trace w @ [EvPrint (Skipping year doy)]\<rparr>))
   \<and> (get_climcaps_short_name platform = Inr short_name
        \<and> and_then (ea_search_data env short_name year doy)
              (get_granule_list (window_ymd env year doy)) = Inr granule_list
        \<and> granule_list \<noteq> []
        \<and> production_day fuel env platform short_name year var_list doy w = Some (Inr (), w1)
      \<longrightarrow> production_day fuel' env platform short_name year var_list doy w1
            = Some (Inr (), w1\<lparr>trace := trace w1 @ [EvPrint (Skipping year doy)]\<rparr>))"
proof (intro conjI impI)
  assume "output_file_name short_name year doy \<in> readable w"
  then show "production_day fuel env platform short_name year var_list doy w
        = Some (Inr (), w\<lparr>trace := trace w @ [EvPrint (Skipping year doy)]\<rparr>)"
    by (simp add: production_day_def)
next
  let ?out = "output_file_name short_name year doy"
  assume a: "get_climcaps_short_name platform = Inr short_name
        \<and> and_then (ea_search_data env short_name year doy)
              (get_granule_list (window_ymd env year doy)) = Inr granule_list
        \<and> granule_list \<noteq> []
        \<and> production_day fuel env platform short_name year var_list doy w = Some (Inr (), w1)"
  have "?out \<in> readable w1"
  proof (cases "?out \<in> readable w")
    case True
    with a show ?thesis by (auto simp: production_day_def)
  next
    case False
    let ?w0 = "w\<lparr>trace := trace w @ [EvPrint (Computing year doy)]\<rparr>"
    from a False obtain w' where
      run: "run_subagg fuel env year doy platform var_list ?out True ''climcaps_subagg_tmp'' ?w0
              = Some (Inr (), w')"
      and w1: "w1 = w'\<lparr>trace := trace w' @ [EvPrint Elapsed]\<rparr>"
      by (auto simp: production_day_def Let_def split: option.splits sum.splits prod.splits)
    from a run_subagg_readable [OF run] have "?out \<in> readable w'" by blast
    with w1 show ?thesis by simp
  qed
  then show "production_day fuel' env platform short_name year var_list doy w1
            = Some (Inr (), w1\<lparr>trace := trace w1 @ [EvPrint (Skipping year doy)]\<rparr>)"
    by (simp add: production_day_def)
qed

lemma sample_output_file_name:
  "output_file_name ''SNDRSNIML2CCPRETN'' 2015 8 = ''SNDRSNIML2CCPRETN_subaggregate_2015-008.nc''"
  by (simp add: output_file_name_def format_4d_def format_03d_def Let_def numeral_2_eq_2)

lemma production_day_sample:
  "\<exists>w1. production_day 1 sample_env ''snpp-normal'' ''SNDRSNIML2CCPRETN'' 2015 [''lat''] 8
           empty_world = Some (Inr (), w1)"
  by (simp add: production_day_def sample_output_file_name
      run_subagg_def sample_env_def sample_dataset_def empty_world_def
      get_climcaps_short_name_def get_granule_list_def trim_at_def py_pop_def
      earthaccess_download_def download_loop.simps count_str_def os_path_join_def
      aggregate_and_write_def load_granule_from_file_def load_from_netCDF4_def
      nc_getitem_def dimension_size_def concat_granules_def write_cdat_def
      output_dtype_def first_element_def run_defs Let_def
      seed_cdat.simps concat_variables.simps reconcile_dims.simps)

theorem production_day_skips_witness:
  "output_file_name ''SNDRSNIML2CCPRETN'' 2015 8
     \<in> readable (empty_world\<lparr>readable := {''SNDRSNIML2CCPRETN_subaggregate_2015-008.nc''}\<rparr>)
   \<and> production_day 0 sample_env ''snpp-normal'' ''SNDRSNIML2CCPRETN'' 2015 [''lat''] 8
        (empty_world\<lparr>readable := {''SNDRSNIML2CCPRETN_subaggregate_2015-008.nc''}\<rparr>)
      = Some (Inr (),
              empty_world\<lparr>readable := {''SNDRSNIML2CCPRETN_subaggregate_2015-008.nc''},
                           trace := [EvPrint (Skipping 2015 8)]\<rparr>)
   \<and> (\<exists>w1. production_day 1 sample_env ''snpp-normal'' ''SNDRSNIML2CCPRETN'' 2015 [''lat''] 8
               empty_world = Some (Inr (), w1)
           \<and> production_day 0 sample_env ''snpp-normal'' ''SNDRSNIML2CCPRETN'' 2015 [''lat''] 8 w1
               = Some (Inr (), w1\<lparr>trace := trace w1 @ [EvPrint (Skipping 2015 8)]\<rparr>))"
proof -
  let ?w = "empty_world\<lparr>readable := {''SNDRSNIML2CCPRETN_subaggregate_2015-008.nc''}\<rparr>"
  have r: "output_file_name ''SNDRSNIML2CCPRETN'' 2015 8 \<in> readable ?w"
    by (simp add: sample_output_file_name)
  have t: "trace ?w = []" by (simp add: empty_world_def)
  from r production_day_skips [of "''SNDRSNIML2CCPRETN''" 2015 8 ?w 0 sample_env "''snpp-normal''"
      "[''lat'']"]
  have a: "production_day 0 sample_env ''snpp-normal'' ''SNDRSNIML2CCPRETN'' 2015 [''lat''] 8 ?w
      = Some (Inr (), ?w\<lparr>trace := trace ?w @ [EvPrint (Skipping 2015 8)]\<rparr>)"
    by blast
  have sn: "get_climcaps_short_name ''snpp-normal'' = Inr ''SNDRSNIML2CCPRETN''"
    by (simp add: get_climcaps_short_name_def dict_get_def)
  have gl: "and_then (ea_search_data sample_env ''SNDRSNIML2CCPRETN'' 2015 8)
              (get_granule_list (window_ymd sample_env 2015 8))
            = Inr [\<lparr>data_links = [''s3://b/SNDR.SNPP.CRIMSS.20150108T0000.m06.g001.nc'']\<rparr>]"
    by (simp add: sample_env_def get_granule_list_def trim_at_def and_then_def py_index_def
        py_pop_def)
  obtain w1 where first: "production_day 1 sample_env ''snpp-normal'' ''SNDRSNIML2CCPRETN''
      2015 [''lat''] 8 empty_world = Some (Inr (), w1)"
    using production_day_sample by blast
  from sn gl first production_day_skips [of "''SNDRSNIML2CCPRETN''" 2015 8 empty_world 1
      sample_env "''snpp-normal''" "[''lat'']"
      "[\<lparr>data_links = [''s3://b/SNDR.SNPP.CRIMSS.20150108T0000.m06.g001.nc'']\<rparr>]" w1 0]
  have b: "production_day 0 sample_env ''snpp-normal'' ''SNDRSNIML2CCPRETN'' 2015 [''lat''] 8 w1
               = Some (Inr (), w1\<lparr>trace := trace w1 @ [EvPrint (Skipping 2015 8)]\<rparr>)"
    by blast
  from a t have a': "production_day 0 sample_env ''snpp-normal'' ''SNDRSNIML2CCPRETN'' 2015
      [''lat''] 8 ?w = Some (Inr (), ?w\<lparr>trace := [EvPrint (Skipping 2015 8)]\<rparr>)"
    by simp
  from r a' first b show ?thesis by blast
qed

end
